theory Spec2Isabelle
  imports Main
begin

section \<open>JavaScript values and strings\<close>

text \<open>
  The program is \<^verbatim>\<open>server.js\<close>, a Node service. Its data comes from a YAML roster and from
  JSON responses, so every field holds a dynamically typed value. A value is modelled by
  what the code can observe of it: its type tag, its truthiness and its conversion to a
  string. The code reads a number of its data by \<^verbatim>\<open>if (n)\<close> and \<^verbatim>\<open>String(n)\<close>, and in no other
  way but to hand it to \<^verbatim>\<open>new Date\<close>, so \<open>JNum s\<close> is the number whose conversion to a string is
  \<open>s\<close>: \<open>JNum ''12''\<close>
  is 12, \<open>JNum ''-3''\<close>, \<open>JNum ''1.5''\<close>, \<open>JNum ''1e+21''\<close>, \<open>JNum ''Infinity''\<close> and \<open>JNum ''NaN''\<close>
  are numbers as well; both zeros are \<open>JNum ''0''\<close>. \<open>JObject s\<close> stands for any
  non-primitive value (object, array, function, \<^verbatim>\<open>Date\<close>) whose conversion to a string is
  \<open>s\<close>, and \<open>JNoString\<close> for one whose conversion to a string throws a \<^verbatim>\<open>TypeError\<close>: an object
  with an own property \<^verbatim>\<open>toString\<close> that is no function, as the YAML mapping
  \<^verbatim>\<open>{toString: 1}\<close>, or an array that holds one. Strings are sequences of code units below
  256.
\<close>

datatype jsval =
  JUndefined | JNull | JBool bool | JNum string | JStr string | JObject string | JNoString

text \<open>ToBoolean: what \<^verbatim>\<open>if (v)\<close>, \<^verbatim>\<open>!v\<close>, \<^verbatim>\<open>v ? a : b\<close>, \<^verbatim>\<open>||\<close> and \<^verbatim>\<open>&&\<close> test. The falsy numbers
  are the zeros and \<open>NaN\<close>.\<close>

fun truthy :: "jsval \<Rightarrow> bool" where
  "truthy JUndefined = False"
| "truthy JNull = False"
| "truthy (JBool b) = b"
| "truthy (JNum s) = (s \<noteq> ''0'' \<and> s \<noteq> ''NaN'')"
| "truthy (JStr s) = (s \<noteq> [])"
| "truthy (JObject s) = True"
| "truthy JNoString = True"

text \<open>\<^verbatim>\<open>a || b\<close> and \<^verbatim>\<open>a && b\<close> return one of their operands.\<close>

definition js_or :: "jsval \<Rightarrow> jsval \<Rightarrow> jsval" where
  "js_or a b = (if truthy a then a else b)"

definition js_and :: "jsval \<Rightarrow> jsval \<Rightarrow> jsval" where
  "js_and a b = (if truthy a then b else a)"

definition is_digit :: "char \<Rightarrow> bool" where
  "is_digit c = (c \<in> set ''0123456789'')"

text \<open>The characters \<^verbatim>\<open>\s\<close> matches and \<^verbatim>\<open>parseInt\<close> skips: tab, line feed, vertical tab,
  form feed, carriage return, space and the no-break space.\<close>

definition js_isspace :: "char \<Rightarrow> bool" where
  "js_isspace c = (c \<in> set [CHR 0x09, CHR 0x0A, CHR 0x0B, CHR 0x0C, CHR 0x0D, CHR 0x20, CHR 0xA0])"

definition digit_value :: "char \<Rightarrow> nat" where
  "digit_value c = (case map_of (zip ''0123456789'' [0, 1, 2, 3, 4, 5, 6, 7, 8, 9]) c of
     Some d \<Rightarrow> d | None \<Rightarrow> 0)"

definition digits_value :: "string \<Rightarrow> nat" where
  "digits_value ds = foldl (\<lambda>acc c. 10 * acc + digit_value c) 0 ds"

function show_nat :: "nat \<Rightarrow> string" where
  "show_nat n = (if n < 10 then [''0123456789'' ! n]
     else show_nat (n div 10) @ [''0123456789'' ! (n mod 10)])"
  by pat_completeness auto
termination
  by (relation "measure id") auto

declare show_nat.simps [simp del]

text \<open>\<^verbatim>\<open>String(v)\<close>, also what a template literal, \<^verbatim>\<open>Array.prototype.join\<close>, string
  concatenation and the \<^verbatim>\<open>test\<close> of a regular expression apply to a value; \<open>None\<close> when the
  conversion throws.\<close>

fun to_string :: "jsval \<Rightarrow> string option" where
  "to_string JUndefined = Some ''undefined''"
| "to_string JNull = Some ''null''"
| "to_string (JBool b) = Some (if b then ''true'' else ''false'')"
| "to_string (JNum s) = Some s"
| "to_string (JStr s) = Some s"
| "to_string (JObject s) = Some s"
| "to_string JNoString = None"

text \<open>\<^verbatim>\<open>parseInt(s, 10)\<close> skips leading white space, reads a sign, then the longest run of
  decimal digits. \<open>parseInt_run\<close> gives the sign and the run, \<open>None\<close> when there is no digit
  (the result is then \<open>NaN\<close>).\<close>

definition parseInt_run :: "string \<Rightarrow> (bool \<times> string) option" where
  "parseInt_run s =
     (let t = dropWhile js_isspace s;
          neg = (case t of [] \<Rightarrow> False | c # r \<Rightarrow> c = CHR ''-'');
          u = (case t of [] \<Rightarrow> [] | c # r \<Rightarrow> if c = CHR ''-'' \<or> c = CHR ''+'' then r else t);
          ds = takeWhile is_digit u
      in if ds = [] then None else Some (neg, ds))"

text \<open>The code uses \<^verbatim>\<open>parseInt\<close> only inside \<^verbatim>\<open>String(parseInt(x, 10))\<close>. The value of a digit
  run is a double: up to \<open>2^53 = 9007199254740992\<close> it is the integer itself and its
  rendering is the integer's decimal digits; above, it is the nearest double, whose
  rendering (rounded digits, exponent form from \<open>10^21\<close> on, \<^verbatim>\<open>Infinity\<close>) is the runtime's.
  The model takes that rendering as the parameter \<open>big\<close>, a function of the digit run.\<close>

type_synonym big_render = "string \<Rightarrow> string"

definition render_run :: "big_render \<Rightarrow> string \<Rightarrow> string" where
  "render_run big ds =
     (if digits_value ds \<le> 9007199254740992 then show_nat (digits_value ds) else big ds)"

definition String_parseInt :: "big_render \<Rightarrow> string \<Rightarrow> string" where
  "String_parseInt big s = (case parseInt_run s of
       None \<Rightarrow> ''NaN''
     | Some (neg, ds) \<Rightarrow>
         if neg \<and> digits_value ds \<noteq> 0 then CHR ''-'' # render_run big ds else render_run big ds)"

text \<open>\<^verbatim>\<open>String.prototype.toLowerCase\<close> on code units below 256: the ASCII capitals and the
  Latin-1 capitals \<open>0xC0\<close> to \<open>0xDE\<close> (without the multiplication sign \<open>0xD7\<close>) move up by
  32. No other code unit below 256 is lowered to an ASCII letter, so a case-insensitive
  regular expression made of ASCII letters matches a string exactly where the lowered
  string holds the lowered pattern.\<close>

definition upper_chars :: "char list" where
  "upper_chars = ''ABCDEFGHIJKLMNOPQRSTUVWXYZ'' @
     [CHR 0xC0, CHR 0xC1, CHR 0xC2, CHR 0xC3, CHR 0xC4, CHR 0xC5, CHR 0xC6, CHR 0xC7,
      CHR 0xC8, CHR 0xC9, CHR 0xCA, CHR 0xCB, CHR 0xCC, CHR 0xCD, CHR 0xCE, CHR 0xCF,
      CHR 0xD0, CHR 0xD1, CHR 0xD2, CHR 0xD3, CHR 0xD4, CHR 0xD5, CHR 0xD6,
      CHR 0xD8, CHR 0xD9, CHR 0xDA, CHR 0xDB, CHR 0xDC, CHR 0xDD, CHR 0xDE]"

definition lower_chars :: "char list" where
  "lower_chars = ''abcdefghijklmnopqrstuvwxyz'' @
     [CHR 0xE0, CHR 0xE1, CHR 0xE2, CHR 0xE3, CHR 0xE4, CHR 0xE5, CHR 0xE6, CHR 0xE7,
      CHR 0xE8, CHR 0xE9, CHR 0xEA, CHR 0xEB, CHR 0xEC, CHR 0xED, CHR 0xEE, CHR 0xEF,
      CHR 0xF0, CHR 0xF1, CHR 0xF2, CHR 0xF3, CHR 0xF4, CHR 0xF5, CHR 0xF6,
      CHR 0xF8, CHR 0xF9, CHR 0xFA, CHR 0xFB, CHR 0xFC, CHR 0xFD, CHR 0xFE]"

definition lower_char :: "char \<Rightarrow> char" where
  "lower_char c = (case map_of (zip upper_chars lower_chars) c of Some l \<Rightarrow> l | None \<Rightarrow> c)"

definition toLowerCase :: "string \<Rightarrow> string" where
  "toLowerCase s = map lower_char s"

text \<open>\<^verbatim>\<open>s.includes(needle)\<close>.\<close>

fun includes_str :: "string \<Rightarrow> string \<Rightarrow> bool" where
  "includes_str [] needle = (needle = [])"
| "includes_str (c # cs) needle =
     (take (length needle) (c # cs) = needle \<or> includes_str cs needle)"

text \<open>\<^verbatim>\<open>s.match(/\d+/)\<close>: the leftmost longest run of digits, \<open>None\<close> for \<^verbatim>\<open>null\<close>.\<close>

definition match_digits :: "string \<Rightarrow> string option" where
  "match_digits s = (let r = dropWhile (\<lambda>c. \<not> is_digit c) s in
     if r = [] then None else Some (takeWhile is_digit r))"

text \<open>\<^verbatim>\<open>/at[-\s]*large/i.test(s)\<close>: somewhere in \<open>s\<close> stand \<open>a\<close> and \<open>t\<close>, then any number of
  hyphens and white space, then \<open>large\<close>, in either case. No character of the skipped
  class starts \<open>large\<close>, so skipping all of them loses no match.\<close>

fun at_large_at :: "string \<Rightarrow> bool" where
  "at_large_at (a # t # rest) =
     (lower_char a = CHR ''a'' \<and> lower_char t = CHR ''t'' \<and>
      take 5 (toLowerCase (dropWhile (\<lambda>c. c = CHR ''-'' \<or> js_isspace c) rest)) = ''large'')"
| "at_large_at _ = False"

fun test_at_large :: "string \<Rightarrow> bool" where
  "test_at_large [] = False"
| "test_at_large (c # cs) = (at_large_at (c # cs) \<or> test_at_large cs)"

text \<open>\<^verbatim>\<open>s.match(/(\d+)\s*$/)\<close>: the digit run that ends the string once trailing white space
  is dropped; group 1 of the match, \<open>None\<close> for \<^verbatim>\<open>null\<close>.\<close>

definition match_trailing_digits :: "string \<Rightarrow> string option" where
  "match_trailing_digits s =
     (let ds = rev (takeWhile is_digit (dropWhile js_isspace (rev s))) in
      if ds = [] then None else Some ds)"

text \<open>\<^verbatim>\<open>/^CD\d{1,3}$/i.test(k)\<close>.\<close>

fun test_CD :: "string \<Rightarrow> bool" where
  "test_CD (c # d # ds) =
     (lower_char c = CHR ''c'' \<and> lower_char d = CHR ''d'' \<and>
      1 \<le> length ds \<and> length ds \<le> 3 \<and> list_all is_digit ds)"
| "test_CD _ = False"

text \<open>\<^verbatim>\<open>/district/i.test(s)\<close>.\<close>

definition test_district :: "string \<Rightarrow> bool" where
  "test_district s = includes_str (toLowerCase s) ''district''"

text \<open>\<^verbatim>\<open>s.padStart(2, '0')\<close> and \<^verbatim>\<open>s.slice(0, 2)\<close>.\<close>

definition padStart2 :: "string \<Rightarrow> string" where
  "padStart2 s = replicate (2 - length s) CHR ''0'' @ s"

definition slice02 :: "string \<Rightarrow> string" where
  "slice02 s = take 2 s"

text \<open>\<^verbatim>\<open>s.split('-')\<close>.\<close>

fun split_hyphen :: "string \<Rightarrow> string list" where
  "split_hyphen [] = [[]]"
| "split_hyphen (c # cs) =
     (if c = CHR ''-'' then [] # split_hyphen cs
      else (case split_hyphen cs of [] \<Rightarrow> [[c]] | seg # segs \<Rightarrow> (c # seg) # segs))"

section \<open>The roster and the officeholder index\<close>

text \<open>A term of the roster, with the fields \<^verbatim>\<open>loadIndex\<close> reads.\<close>

record term_rec =
  t_type :: jsval
  t_state :: jsval
  t_district :: jsval
  t_start :: jsval
  t_end :: jsval
  t_party :: jsval
  t_phone :: jsval
  t_url :: jsval

text \<open>District normalisation, lines 44 to 50 of \<^verbatim>\<open>loadIndex\<close>. \<open>districtRaw1\<close> is
  \<^verbatim>\<open>districtRaw\<close> after the \<^verbatim>\<open>typeof districtRaw === 'string'\<close> branch, which overwrites a
  string that holds digits by its first digit run, parsed and rendered again.
  \<open>normalize_district\<close> is the value of \<^verbatim>\<open>district\<close> after line 50, \<open>None\<close> when
  \<^verbatim>\<open>String(districtRaw)\<close> on line 49 throws.\<close>

definition districtRaw1 :: "big_render \<Rightarrow> jsval \<Rightarrow> jsval" where
  "districtRaw1 big raw = (case raw of
       JStr s \<Rightarrow> (case match_digits s of
                    Some m \<Rightarrow> JStr (String_parseInt big m)
                  | None \<Rightarrow> JStr s)
     | _ \<Rightarrow> raw)"

definition normalize_district :: "big_render \<Rightarrow> jsval \<Rightarrow> string option" where
  "normalize_district big raw =
     (let districtRaw = districtRaw1 big raw in
      if \<not> truthy districtRaw then Some ''1''
      else (case to_string districtRaw of
              None \<Rightarrow> None
            | Some district \<Rightarrow>
                Some (if district = [] \<or> district = ''0'' \<or> test_at_large district
                      then ''1'' else district)))"

text \<open>The elements of a person's \<^verbatim>\<open>terms\<close> array. Reading \<^verbatim>\<open>tt.type\<close> throws a
  \<^verbatim>\<open>TypeError\<close> on \<^verbatim>\<open>null\<close> and \<^verbatim>\<open>undefined\<close>, gives \<^verbatim>\<open>undefined\<close> on any other primitive
  (\<open>TermPrim\<close>), and the field on an object.\<close>

datatype term_item = TermNull | TermPrim | TermObject term_rec

text \<open>\<^verbatim>\<open>person.terms\<close>: a falsy value (replaced by \<^verbatim>\<open>[]\<close>), an array, or a truthy value
  without a \<^verbatim>\<open>filter\<close> method, on which \<^verbatim>\<open>terms.filter(...)\<close> throws.\<close>

datatype terms_val = TermsFalsy | TermsArray "term_item list" | TermsNotArray

text \<open>\<^verbatim>\<open>person.name\<close>: an object with \<^verbatim>\<open>first\<close>, \<^verbatim>\<open>middle\<close> and \<^verbatim>\<open>last\<close>, or another value.\<close>

datatype name_val = NameObject jsval jsval jsval | NameValue jsval

text \<open>\<^verbatim>\<open>person.id\<close>: falsy, or a value whose \<^verbatim>\<open>bioguide\<close> property is read.\<close>

datatype id_val = IdFalsy | IdObject jsval

record person =
  p_name :: name_val
  p_first_name :: jsval
  p_last_name :: jsval
  p_full_name :: jsval
  p_party :: jsval
  p_phone :: jsval
  p_url :: jsval
  p_website :: jsval
  p_id :: id_val
  p_terms :: terms_val

text \<open>The elements of the roster: \<^verbatim>\<open>person.terms\<close> throws on \<^verbatim>\<open>null\<close> and \<^verbatim>\<open>undefined\<close> and is
  \<^verbatim>\<open>undefined\<close> on any other primitive.\<close>

datatype person_item = PersonNull | PersonPrim | PersonObject person

text \<open>What \<^verbatim>\<open>yaml.load\<close> returned: something \<^verbatim>\<open>for ... of\<close> iterates, or not.\<close>

datatype docs_val = DocsArray "person_item list" | DocsNotIterable

datatype load_error = ReadError | YAMLException | TypeError

text \<open>\<^verbatim>\<open>[...].filter(Boolean).join(' ')\<close>.\<close>

fun join_space :: "string list \<Rightarrow> string" where
  "join_space [] = []"
| "join_space [s] = s"
| "join_space (s # t # ss) = s @ CHR '' '' # join_space (t # ss)"

text \<open>\<open>None\<close> when the conversion of an element throws.\<close>

definition filter_join :: "jsval list \<Rightarrow> jsval option" where
  "filter_join vs = map_option (\<lambda>ss. JStr (join_space ss)) (those (map to_string (filter truthy vs)))"

text \<open>\<^verbatim>\<open>normalizeName\<close>, on a person object (the only argument \<^verbatim>\<open>loadIndex\<close> passes); \<open>None\<close>
  when it throws.\<close>

definition normalizeName :: "person \<Rightarrow> jsval option" where
  "normalizeName p = (case p_name p of
       NameObject f m l \<Rightarrow> filter_join [f, m, l]
     | NameValue v \<Rightarrow>
         if truthy (js_or (p_first_name p) (p_last_name p))
         then filter_join [p_first_name p, p_last_name p]
         else Some (js_or (js_or v (p_full_name p)) (JStr [])))"

text \<open>A \<^verbatim>\<open>Date\<close> is its time value: an epoch in milliseconds, which is an integer of
  magnitude at most \<open>8.64 * 10^15\<close>, or \<open>NaN\<close> for an invalid date. \<^verbatim>\<open>new Date(v)\<close> is the
  library's; the model takes it as the parameter \<open>Date_new\<close>. \<^verbatim>\<open>new Date()\<close>, the evaluation
  instant, is the parameter \<open>today\<close>.\<close>

datatype jsnum = Num int | NaN

type_synonym date_ctor = "jsval \<Rightarrow> jsnum"

text \<open>\<^verbatim>\<open>new Date(v)\<close> converts a non-primitive \<open>v\<close> to a primitive first, by \<^verbatim>\<open>valueOf\<close> and then
  \<^verbatim>\<open>toString\<close>; the \<^verbatim>\<open>valueOf\<close> that an object or array of the roster inherits returns the
  object itself, so the constructor throws exactly where \<^verbatim>\<open>String(v)\<close> does. \<open>None\<close> when it
  throws.\<close>

definition new_Date :: "date_ctor \<Rightarrow> jsval \<Rightarrow> jsnum option" where
  "new_Date Date_new v = (case to_string v of None \<Rightarrow> None | Some s \<Rightarrow> Some (Date_new v))"

text \<open>\<^verbatim>\<open>a <= b\<close> and \<^verbatim>\<open>a > b\<close> on numbers: false when either side is \<open>NaN\<close>.\<close>

fun js_le :: "jsnum \<Rightarrow> jsnum \<Rightarrow> bool" where
  "js_le (Num a) (Num b) = (a \<le> b)"
| "js_le _ _ = False"

fun js_gt :: "jsnum \<Rightarrow> jsnum \<Rightarrow> bool" where
  "js_gt (Num a) (Num b) = (a > b)"
| "js_gt _ _ = False"

text \<open>\<^verbatim>\<open>n || 0\<close> on a number: \<open>0\<close> and \<open>NaN\<close> are the falsy numbers.\<close>

fun num_or_zero :: "jsnum \<Rightarrow> jsnum" where
  "num_or_zero NaN = Num 0"
| "num_or_zero (Num n) = Num n"

record candidate =
  c_person :: person
  c_term :: term_rec
  isCurrent :: bool
  c_start :: jsnum

text \<open>Lines 43 to 56: the key and the candidate of one House term, \<open>None\<close> where a
  conversion throws. \<open>date_field\<close> is \<^verbatim>\<open>t.start ? new Date(t.start) : null\<close>, with \<open>Some None\<close>
  for \<^verbatim>\<open>null\<close>.\<close>

definition term_key :: "big_render \<Rightarrow> term_rec \<Rightarrow> string option" where
  "term_key big t = (case normalize_district big (t_district t) of
       None \<Rightarrow> None
     | Some district \<Rightarrow> (case to_string (t_state t) of
                          None \<Rightarrow> None
                        | Some state \<Rightarrow> Some (state @ CHR ''-'' # district)))"

definition date_field :: "date_ctor \<Rightarrow> jsval \<Rightarrow> jsnum option option" where
  "date_field Date_new v =
     (if truthy v then map_option Some (new_Date Date_new v) else Some None)"

definition term_candidate :: "int \<Rightarrow> date_ctor \<Rightarrow> person \<Rightarrow> term_rec \<Rightarrow> candidate option" where
  "term_candidate today Date_new p t =
     (case date_field Date_new (t_start t) of
        None \<Rightarrow> None
      | Some start \<Rightarrow>
          (case date_field Date_new (t_end t) of
             None \<Rightarrow> None
           | Some end_d \<Rightarrow>
               Some \<lparr> c_person = p, c_term = t,
                 isCurrent = ((case start of None \<Rightarrow> True | Some s \<Rightarrow> js_le s (Num today)) \<and>
                              (case end_d of None \<Rightarrow> True | Some e \<Rightarrow> js_le (Num today) e)),
                 c_start = (case start of None \<Rightarrow> Num 0 | Some s \<Rightarrow> s) \<rparr>))"

text \<open>The local \<^verbatim>\<open>map\<close>: an object from key to candidate array, in insertion order (every
  key holds a hyphen, so none is an array index and none names a member of
  \<^verbatim>\<open>Object.prototype\<close>). \<open>push_candidate\<close> is lines 57 and 58.\<close>

type_synonym cand_map = "(string \<times> candidate list) list"

fun push_candidate :: "string \<Rightarrow> candidate \<Rightarrow> cand_map \<Rightarrow> cand_map" where
  "push_candidate key c [] = [(key, [c])]"
| "push_candidate key c ((k, arr) # m) =
     (if k = key then (k, arr @ [c]) # m else (k, arr) # push_candidate key c m)"

text \<open>\<^verbatim>\<open>terms.filter(tt => tt.type === 'rep')\<close>: it runs over the whole array before the
  loop body sees a term, and throws at the first \<^verbatim>\<open>null\<close> element.\<close>

fun filter_rep :: "term_item list \<Rightarrow> load_error + term_rec list" where
  "filter_rep [] = Inr []"
| "filter_rep (TermNull # ts) = Inl TypeError"
| "filter_rep (TermPrim # ts) = filter_rep ts"
| "filter_rep (TermObject t # ts) =
     (case filter_rep ts of
        Inl e \<Rightarrow> Inl e
      | Inr rs \<Rightarrow> Inr (if t_type t = JStr ''rep'' then t # rs else rs))"

text \<open>The inner loop, lines 42 to 59, over the filtered terms of one person. A conversion
  that throws ends the build with a \<^verbatim>\<open>TypeError\<close>.\<close>

fun term_loop :: "big_render \<Rightarrow> int \<Rightarrow> date_ctor \<Rightarrow> person \<Rightarrow> term_rec list \<Rightarrow> cand_map \<Rightarrow> load_error + cand_map" where
  "term_loop big today Date_new p [] m = Inr m"
| "term_loop big today Date_new p (t # ts) m =
     (case term_key big t of
        None \<Rightarrow> Inl TypeError
      | Some key \<Rightarrow>
          (case term_candidate today Date_new p t of
             None \<Rightarrow> Inl TypeError
           | Some c \<Rightarrow> term_loop big today Date_new p ts (push_candidate key c m)))"

text \<open>The outer loop, lines 40 to 60. An exception leaves the loop with the map built so
  far dropped.\<close>

fun person_loop :: "big_render \<Rightarrow> int \<Rightarrow> date_ctor \<Rightarrow> person_item list \<Rightarrow> cand_map \<Rightarrow> load_error + cand_map" where
  "person_loop big today Date_new [] m = Inr m"
| "person_loop big today Date_new (PersonNull # ps) m = Inl TypeError"
| "person_loop big today Date_new (PersonPrim # ps) m = person_loop big today Date_new ps m"
| "person_loop big today Date_new (PersonObject p # ps) m =
     (case p_terms p of
        TermsNotArray \<Rightarrow> Inl TypeError
      | TermsFalsy \<Rightarrow> person_loop big today Date_new ps m
      | TermsArray items \<Rightarrow>
          (case filter_rep items of
             Inl e \<Rightarrow> Inl e
           | Inr ts \<Rightarrow>
               (case term_loop big today Date_new p ts m of
                  Inl e \<Rightarrow> Inl e
                | Inr m2 \<Rightarrow> person_loop big today Date_new ps m2)))"

text \<open>Lines 65 and 66. \<^verbatim>\<open>arr.find(a => a.isCurrent)\<close> is the first current candidate;
  \<^verbatim>\<open>arr.reduce((best, cur) => (cur.start > (best.start||0) ? cur : best), arr[0])\<close> folds from
  \<^verbatim>\<open>arr[0]\<close> over every element. On an empty array both give \<^verbatim>\<open>undefined\<close>, here \<open>None\<close>.\<close>

definition reduce_step :: "candidate \<Rightarrow> candidate \<Rightarrow> candidate" where
  "reduce_step best cur = (if js_gt (c_start cur) (num_or_zero (c_start best)) then cur else best)"

definition chosen :: "candidate list \<Rightarrow> candidate option" where
  "chosen arr = (case find isCurrent arr of
       Some c \<Rightarrow> Some c
     | None \<Rightarrow> (case arr of [] \<Rightarrow> None | a0 # rest \<Rightarrow> Some (foldl reduce_step a0 arr)))"

record entry =
  e_name :: jsval
  e_party :: jsval
  e_phone :: jsval
  e_url :: jsval
  e_bioguide :: jsval
  raw_person :: person
  raw_term :: term_rec

text \<open>Lines 67 to 76: the index entry of the chosen candidate, \<open>None\<close> when \<^verbatim>\<open>normalizeName\<close>
  throws. The other fields are copied without conversion.\<close>

definition make_entry :: "candidate \<Rightarrow> entry option" where
  "make_entry c = (let p = c_person c; t = c_term c in
     case normalizeName p of
       None \<Rightarrow> None
     | Some name \<Rightarrow>
         Some \<lparr> e_name = name,
           e_party = js_or (js_or (t_party t) (p_party p)) (JStr []),
           e_phone = js_or (js_or (js_or (t_phone t) (p_phone p)) (JStr [])) (JStr []),
           e_url = js_or (js_or (js_or (js_or (t_url t) (p_url p)) (p_website p)) (JStr [])) (JStr []),
           e_bioguide = (case p_id p of IdFalsy \<Rightarrow> JNull | IdObject b \<Rightarrow> js_or b JNull),
           raw_person = p,
           raw_term = t \<rparr>)"

text \<open>The index: an object from key to entry, in insertion order.\<close>

type_synonym index = "(string \<times> entry) list"

text \<open>The second loop, lines 63 to 77. Reading \<^verbatim>\<open>chosen.person\<close> of \<^verbatim>\<open>undefined\<close> would
  throw.\<close>

fun entry_loop :: "cand_map \<Rightarrow> load_error + index" where
  "entry_loop [] = Inr []"
| "entry_loop ((key, arr) # m) =
     (case chosen arr of
        None \<Rightarrow> Inl TypeError
      | Some c \<Rightarrow>
          (case make_entry c of
             None \<Rightarrow> Inl TypeError
           | Some e \<Rightarrow> (case entry_loop m of
                         Inl err \<Rightarrow> Inl err
                       | Inr out \<Rightarrow> Inr ((key, e) # out))))"

text \<open>Lines 35 to 77: everything \<^verbatim>\<open>loadIndex\<close> does before it assigns \<^verbatim>\<open>INDEX\<close>. \<open>src\<close> is the
  outcome of \<^verbatim>\<open>fs.readFileSync\<close> and \<^verbatim>\<open>yaml.load\<close>: an exception, or the documents.\<close>

definition candidates :: "big_render \<Rightarrow> int \<Rightarrow> date_ctor \<Rightarrow> load_error + docs_val \<Rightarrow> load_error + cand_map" where
  "candidates big today Date_new src = (case src of
       Inl e \<Rightarrow> Inl e
     | Inr DocsNotIterable \<Rightarrow> Inl TypeError
     | Inr (DocsArray ps) \<Rightarrow> person_loop big today Date_new ps [])"

definition build :: "big_render \<Rightarrow> int \<Rightarrow> date_ctor \<Rightarrow> load_error + docs_val \<Rightarrow> load_error + index" where
  "build big today Date_new src = (case candidates big today Date_new src of
       Inl e \<Rightarrow> Inl e
     | Inr m \<Rightarrow> entry_loop m)"

text \<open>The process-wide state: the published index.\<close>

record world =
  INDEX :: index

text \<open>\<^verbatim>\<open>loadIndex\<close>: the outcome (an exception, or a normal return) and the state after it.
  \<^verbatim>\<open>INDEX = outIndex\<close> on line 78 is the only write to the state.\<close>

definition loadIndex :: "big_render \<Rightarrow> int \<Rightarrow> date_ctor \<Rightarrow> load_error + docs_val \<Rightarrow> world \<Rightarrow> (load_error + unit) \<times> world" where
  "loadIndex big today Date_new src w = (case build big today Date_new src of
       Inl e \<Rightarrow> (Inl e, w)
     | Inr outIndex \<Rightarrow> (Inr (), w\<lparr>INDEX := outIndex\<rparr>))"

text \<open>The handler of \<^verbatim>\<open>/admin/reload\<close>, lines 364 to 367.\<close>

datatype reload_response = ReloadOk nat | Reload500 load_error

definition admin_reload :: "big_render \<Rightarrow> int \<Rightarrow> date_ctor \<Rightarrow> load_error + docs_val \<Rightarrow> world \<Rightarrow> reload_response \<times> world" where
  "admin_reload big today Date_new src w = (case loadIndex big today Date_new src w of
       (Inl e, w') \<Rightarrow> (Reload500 e, w')
     | (Inr u, w') \<Rightarrow> (ReloadOk (length (INDEX w')), w'))"

section \<open>District extraction and the join, lines 287 to 353 of the \<^verbatim>\<open>/api/rep\<close> handler\<close>

text \<open>A district-geography object of the geocoder's JSON: its own properties in the order
  \<^verbatim>\<open>Object.keys\<close> lists them. The first binding of a name is the property's value.\<close>

type_synonym cdobj = "(string \<times> jsval) list"

definition cd_get :: "cdobj \<Rightarrow> string \<Rightarrow> jsval" where
  "cd_get cd k = (case map_of cd k of Some v \<Rightarrow> v | None \<Rightarrow> JUndefined)"

text \<open>The top-level geography mapping \<^verbatim>\<open>geogs\<close>, its properties in the order \<^verbatim>\<open>Object.keys\<close>
  lists them: every property is \<^verbatim>\<open>null\<close> (\<open>None\<close>) or an array of district-geography objects;
  an absent property reads as \<^verbatim>\<open>undefined\<close>, \<open>None\<close> as well.\<close>

type_synonym geographies = "(string \<times> cdobj list option) list"

definition geo_get :: "geographies \<Rightarrow> string \<Rightarrow> cdobj list option" where
  "geo_get geogs k = (case map_of geogs k of Some v \<Rightarrow> v | None \<Rightarrow> None)"

text \<open>\<^verbatim>\<open>!cdArray || cdArray.length === 0\<close>.\<close>

fun no_array :: "cdobj list option \<Rightarrow> bool" where
  "no_array None = True"
| "no_array (Some arr) = (arr = [])"

text \<open>The scan of lines 288 to 293: \<^verbatim>\<open>cdArray\<close> is the value under the first key whose lower
  case holds \<open>congress\<close>, and stays \<^verbatim>\<open>null\<close> when there is none.\<close>

fun scan_congress :: "geographies \<Rightarrow> string list \<Rightarrow> cdobj list option" where
  "scan_congress geogs [] = None"
| "scan_congress geogs (key # keys) =
     (if includes_str (toLowerCase key) ''congress'' then geo_get geogs key
      else scan_congress geogs keys)"

text \<open>\<^verbatim>\<open>a || b\<close> on array values: an array is truthy also when it is empty.\<close>

definition arr_or :: "cdobj list option \<Rightarrow> cdobj list option \<Rightarrow> cdobj list option" where
  "arr_or a b = (case a of Some arr \<Rightarrow> Some arr | None \<Rightarrow> b)"

text \<open>Line 295: the fixed list of exact key spellings.\<close>

definition known_spellings :: "geographies \<Rightarrow> cdobj list option" where
  "known_spellings geogs =
     arr_or (geo_get geogs ''Congressional Districts'')
       (arr_or (geo_get geogs ''Congressional District'')
         (arr_or (geo_get geogs ''CongressionalDistricts'')
           (geo_get geogs ''Congressional district'')))"

datatype api_error =
    NoDistrictsReturned  \<comment> \<open>404, \<^verbatim>\<open>No Congressional Districts returned by Census for ZIP centroid\<close>\<close>
  | NoDistrictsFound  \<comment> \<open>404, \<^verbatim>\<open>No congressional districts found for ZIP centroid\<close>\<close>
  | LookupFailed  \<comment> \<open>500, \<^verbatim>\<open>Lookup failed\<close>: the \<^verbatim>\<open>catch\<close> of line 357, after an exception\<close>

text \<open>Lines 287 to 299.\<close>

definition locate_cdArray :: "geographies \<Rightarrow> api_error + cdobj list" where
  "locate_cdArray geogs =
     (let cdArray = scan_congress geogs (map fst geogs);
          cdArray2 = (if no_array cdArray then known_spellings geogs else cdArray)
      in case cdArray2 of
           None \<Rightarrow> Inl NoDistrictsReturned
         | Some [] \<Rightarrow> Inl NoDistrictsReturned
         | Some (cd # cds) \<Rightarrow> Inr (cd # cds))"

text \<open>Lines 306 to 310, at one field \<open>k\<close>: what the loop body assigns to \<^verbatim>\<open>districtNum\<close>
  before its \<^verbatim>\<open>break\<close>, \<open>Inr None\<close> when it goes on to the next field. \<^verbatim>\<open>parseInt(cd[k], 10)\<close>
  and \<^verbatim>\<open>/district/i.test(cd[k])\<close> convert the value to a string; an exception there is
  caught on line 357.\<close>

definition field_district :: "big_render \<Rightarrow> cdobj \<Rightarrow> string \<Rightarrow> api_error + string option" where
  "field_district big cd k =
     (if test_CD k \<and> truthy (cd_get cd k)
      then (case to_string (cd_get cd k) of
              None \<Rightarrow> Inl LookupFailed
            | Some s \<Rightarrow> Inr (Some (String_parseInt big s)))
      else if includes_str (toLowerCase k) ''name'' \<and> truthy (cd_get cd k)
      then (case to_string (cd_get cd k) of
              None \<Rightarrow> Inl LookupFailed
            | Some s \<Rightarrow>
                if test_district s
                then (case match_trailing_digits s of
                        Some m \<Rightarrow> Inr (Some (String_parseInt big m))
                      | None \<Rightarrow> Inr None)
                else Inr None)
      else Inr None)"

text \<open>The loop of lines 305 to 311 over \<^verbatim>\<open>Object.keys(cd)\<close>.\<close>

fun scan_fields :: "big_render \<Rightarrow> cdobj \<Rightarrow> string list \<Rightarrow> api_error + string option" where
  "scan_fields big cd [] = Inr None"
| "scan_fields big cd (k # ks) =
     (case field_district big cd k of
        Inl e \<Rightarrow> Inl e
      | Inr (Some d) \<Rightarrow> Inr (Some d)
      | Inr None \<Rightarrow> scan_fields big cd ks)"

text \<open>\<^verbatim>\<open>!districtNum\<close>: \<^verbatim>\<open>null\<close> or the empty string.\<close>

fun no_district :: "string option \<Rightarrow> bool" where
  "no_district None = True"
| "no_district (Some d) = (d = [])"

text \<open>Lines 304 to 315: \<^verbatim>\<open>districtNum\<close> before the state is looked at.\<close>

definition districtNum_raw :: "big_render \<Rightarrow> cdobj \<Rightarrow> api_error + string option" where
  "districtNum_raw big cd =
     (case scan_fields big cd (map fst cd) of
        Inl e \<Rightarrow> Inl e
      | Inr districtNum \<Rightarrow>
          if no_district districtNum \<and> truthy (cd_get cd ''NAME'')
          then (case to_string (cd_get cd ''NAME'') of
                  None \<Rightarrow> Inl LookupFailed
                | Some s \<Rightarrow> (case match_trailing_digits s of
                              Some m \<Rightarrow> Inr (Some (String_parseInt big m))
                            | None \<Rightarrow> Inr districtNum))
          else Inr districtNum)"

text \<open>Line 320, applied to the outcome of lines 304 to 315.\<close>

definition districtNum_final :: "big_render \<Rightarrow> cdobj \<Rightarrow> api_error + string" where
  "districtNum_final big cd = (case districtNum_raw big cd of
       Inl e \<Rightarrow> Inl e
     | Inr None \<Rightarrow> Inr ''1''
     | Inr (Some d) \<Rightarrow> Inr (if d = [] \<or> d = ''0'' then ''1'' else d))"

text \<open>Lines 84 to 91.\<close>

definition FIPS_TO_STATE :: "(string \<times> string) list" where
  "FIPS_TO_STATE =
    [(''01'', ''AL''), (''02'', ''AK''), (''04'', ''AZ''), (''05'', ''AR''), (''06'', ''CA''),
     (''08'', ''CO''), (''09'', ''CT''), (''10'', ''DE''), (''11'', ''DC''), (''12'', ''FL''),
     (''13'', ''GA''), (''15'', ''HI''), (''16'', ''ID''), (''17'', ''IL''), (''18'', ''IN''),
     (''19'', ''IA''), (''20'', ''KS''), (''21'', ''KY''), (''22'', ''LA''), (''23'', ''ME''),
     (''24'', ''MD''), (''25'', ''MA''), (''26'', ''MI''), (''27'', ''MN''), (''28'', ''MS''),
     (''29'', ''MO''), (''30'', ''MT''), (''31'', ''NE''), (''32'', ''NV''), (''33'', ''NH''),
     (''34'', ''NJ''), (''35'', ''NM''), (''36'', ''NY''), (''37'', ''NC''), (''38'', ''ND''),
     (''39'', ''OH''), (''40'', ''OK''), (''41'', ''OR''), (''42'', ''PA''), (''44'', ''RI''),
     (''45'', ''SC''), (''46'', ''SD''), (''47'', ''TN''), (''48'', ''TX''), (''49'', ''UT''),
     (''50'', ''VT''), (''51'', ''VA''), (''53'', ''WA''), (''54'', ''WV''), (''55'', ''WI''),
     (''56'', ''WY''), (''72'', ''PR'')]"

text \<open>\<^verbatim>\<open>FIPS_TO_STATE\<close> is an object literal, so \<^verbatim>\<open>FIPS_TO_STATE[x]\<close> also finds what the object
  inherits from \<^verbatim>\<open>Object.prototype\<close>: eleven functions and the accessor \<^verbatim>\<open>__proto__\<close>, whose
  value is \<^verbatim>\<open>Object.prototype\<close> itself. Each is given with its conversion to a string
  under Node.\<close>

definition Object_prototype :: "(string \<times> string) list" where
  "Object_prototype =
    [(''constructor'', ''function Object() { [native code] }''),
     (''__defineGetter__'', ''function __defineGetter__() { [native code] }''),
     (''__defineSetter__'', ''function __defineSetter__() { [native code] }''),
     (''hasOwnProperty'', ''function hasOwnProperty() { [native code] }''),
     (''__lookupGetter__'', ''function __lookupGetter__() { [native code] }''),
     (''__lookupSetter__'', ''function __lookupSetter__() { [native code] }''),
     (''isPrototypeOf'', ''function isPrototypeOf() { [native code] }''),
     (''propertyIsEnumerable'', ''function propertyIsEnumerable() { [native code] }''),
     (''toString'', ''function toString() { [native code] }''),
     (''valueOf'', ''function valueOf() { [native code] }''),
     (''__proto__'', ''[object Object]''),
     (''toLocaleString'', ''function toLocaleString() { [native code] }'')]"

text \<open>\<^verbatim>\<open>FIPS_TO_STATE[stateFips]\<close>.\<close>

definition FIPS_TO_STATE_get :: "string \<Rightarrow> jsval" where
  "FIPS_TO_STATE_get stateFips = (case map_of FIPS_TO_STATE stateFips of
       Some postal \<Rightarrow> JStr postal
     | None \<Rightarrow> (case map_of Object_prototype stateFips of
                  Some text \<Rightarrow> JObject text
                | None \<Rightarrow> JUndefined))"

text \<open>Lines 316 to 318. \<open>stateFips\<close> is \<open>Inr None\<close> for \<^verbatim>\<open>null\<close>; \<^verbatim>\<open>String(cd.GEOID)\<close> and
  \<^verbatim>\<open>String(stateFipsRaw)\<close> can throw.\<close>

definition stateFipsRaw :: "cdobj \<Rightarrow> api_error + jsval" where
  "stateFipsRaw cd =
     (if truthy (js_or (cd_get cd ''STATE'') (cd_get cd ''STATEFP''))
      then Inr (js_or (cd_get cd ''STATE'') (cd_get cd ''STATEFP''))
      else if truthy (cd_get cd ''GEOID'')
      then (case to_string (cd_get cd ''GEOID'') of
              None \<Rightarrow> Inl LookupFailed
            | Some s \<Rightarrow> Inr (JStr (slice02 s)))
      else Inr (cd_get cd ''GEOID''))"

definition stateFips :: "cdobj \<Rightarrow> api_error + string option" where
  "stateFips cd = (case stateFipsRaw cd of
       Inl e \<Rightarrow> Inl e
     | Inr raw \<Rightarrow>
         if truthy raw
         then (case to_string raw of
                 None \<Rightarrow> Inl LookupFailed
               | Some s \<Rightarrow> Inr (Some (padStart2 s)))
         else Inr None)"

definition cd_state :: "cdobj \<Rightarrow> api_error + jsval" where
  "cd_state cd = (case stateFips cd of
       Inl e \<Rightarrow> Inl e
     | Inr None \<Rightarrow> Inr JNull
     | Inr (Some fips) \<Rightarrow> Inr (if fips = [] then JNull else js_or (FIPS_TO_STATE_get fips) JNull))"

text \<open>One turn of the loop of lines 303 to 322: the key added to \<^verbatim>\<open>foundKeys\<close>, \<open>Inr None\<close>
  when the turn ends at \<^verbatim>\<open>continue\<close>, an error when the turn throws. The district number is
  computed before the state is looked at.\<close>

definition cd_key :: "big_render \<Rightarrow> cdobj \<Rightarrow> api_error + string option" where
  "cd_key big cd = (case districtNum_final big cd of
       Inl e \<Rightarrow> Inl e
     | Inr districtNum \<Rightarrow>
         (case cd_state cd of
            Inl e \<Rightarrow> Inl e
          | Inr state \<Rightarrow>
              if \<not> truthy state then Inr None
              else (case to_string state of
                      None \<Rightarrow> Inl LookupFailed
                    | Some st \<Rightarrow> Inr (Some (st @ CHR ''-'' # districtNum)))))"

text \<open>\<^verbatim>\<open>foundKeys\<close> is a \<^verbatim>\<open>Set\<close>: it keeps the order of first insertion and \<^verbatim>\<open>add\<close> ignores a
  value it holds.\<close>

definition set_add :: "string \<Rightarrow> string list \<Rightarrow> string list" where
  "set_add k found = (if k \<in> set found then found else found @ [k])"

fun collect_keys :: "big_render \<Rightarrow> cdobj list \<Rightarrow> string list \<Rightarrow> api_error + string list" where
  "collect_keys big [] foundKeys = Inr foundKeys"
| "collect_keys big (cd # cds) foundKeys =
     (case cd_key big cd of
        Inl e \<Rightarrow> Inl e
      | Inr None \<Rightarrow> collect_keys big cds foundKeys
      | Inr (Some k) \<Rightarrow> collect_keys big cds (set_add k foundKeys))"

text \<open>Lines 287 to 322 as a whole: the district extractor.\<close>

definition resolveDistricts :: "big_render \<Rightarrow> geographies \<Rightarrow> api_error + string list" where
  "resolveDistricts big geogs = (case locate_cdArray geogs of
       Inl e \<Rightarrow> Inl e
     | Inr cdArray \<Rightarrow> collect_keys big cdArray [])"

text \<open>A resolved representative: the populated object of lines 338 to 349 (state, district,
  photo, and the fields of the index entry, which are copied one by one), or the
  placeholder \<^verbatim>\<open>{ state, district, name: null, missing: true }\<close> of line 351. The district
  is \<open>None\<close> when the key has no second segment (\<^verbatim>\<open>undefined\<close>).\<close>

datatype ResolvedRepresentative =
    Populated string "string option" "string option" entry
  | Placeholder string "string option"

fun missing :: "ResolvedRepresentative \<Rightarrow> bool" where
  "missing (Placeholder st dnum) = True"
| "missing (Populated st dnum photo rep) = False"

fun rep_state :: "ResolvedRepresentative \<Rightarrow> string" where
  "rep_state (Placeholder st dnum) = st"
| "rep_state (Populated st dnum photo rep) = st"

fun rep_district :: "ResolvedRepresentative \<Rightarrow> string option" where
  "rep_district (Placeholder st dnum) = dnum"
| "rep_district (Populated st dnum photo rep) = dnum"

text \<open>\<^verbatim>\<open>const [st, dnum] = k.split('-')\<close>.\<close>

definition key_state :: "string \<Rightarrow> string" where
  "key_state k = (case split_hyphen k of [] \<Rightarrow> [] | st # segs \<Rightarrow> st)"

definition key_district :: "string \<Rightarrow> string option" where
  "key_district k = (case split_hyphen k of st # dnum # segs \<Rightarrow> Some dnum | _ \<Rightarrow> None)"

text \<open>Lines 333 to 336. The concatenation converts \<^verbatim>\<open>rep.bioguide\<close> to a string, which can
  throw.\<close>

definition photo_url :: "entry \<Rightarrow> api_error + string option" where
  "photo_url rep = (if truthy (e_bioguide rep)
     then (case to_string (e_bioguide rep) of
             None \<Rightarrow> Inl LookupFailed
           | Some b \<Rightarrow> Inr (Some (''https://bioguide.congress.gov/photo/'' @ b @ ''.jpg'')))
     else Inr None)"

text \<open>One turn of the loop of lines 328 to 353. \<^verbatim>\<open>INDEX[k]\<close> reads an own property: \<open>k\<close> holds
  a hyphen, and no member of \<^verbatim>\<open>Object.prototype\<close> does. An entry is an object, so
  \<^verbatim>\<open>if (rep)\<close> tests its presence.\<close>

definition resolve_key :: "index \<Rightarrow> string \<Rightarrow> api_error + ResolvedRepresentative" where
  "resolve_key idx k = (case map_of idx k of
       Some rep \<Rightarrow> (case photo_url rep of
                     Inl e \<Rightarrow> Inl e
                   | Inr photo \<Rightarrow> Inr (Populated (key_state k) (key_district k) photo rep))
     | None \<Rightarrow> Inr (Placeholder (key_state k) (key_district k)))"

fun resolveRepresentatives :: "index \<Rightarrow> string list \<Rightarrow> api_error + ResolvedRepresentative list" where
  "resolveRepresentatives idx [] = Inr []"
| "resolveRepresentatives idx (k # ks) =
     (case resolve_key idx k of
        Inl e \<Rightarrow> Inl e
      | Inr rep \<Rightarrow> (case resolveRepresentatives idx ks of
                     Inl e \<Rightarrow> Inl e
                   | Inr reps \<Rightarrow> Inr (rep # reps)))"

text \<open>Lines 287 to 355: from the geography mapping to the response, with the published
  index read from the state. The response holds \<^verbatim>\<open>districts\<close> and \<^verbatim>\<open>representatives\<close>.\<close>

definition api_rep :: "big_render \<Rightarrow> world \<Rightarrow> geographies \<Rightarrow> api_error + (string list \<times> ResolvedRepresentative list)" where
  "api_rep big w geogs = (case resolveDistricts big geogs of
       Inl e \<Rightarrow> Inl e
     | Inr foundKeys \<Rightarrow>
         if foundKeys = [] then Inl NoDistrictsFound
         else (case resolveRepresentatives (INDEX w) foundKeys of
                 Inl e \<Rightarrow> Inl e
               | Inr reps \<Rightarrow> Inr (foundKeys, reps)))"

section \<open>Notions of the specification\<close>

text \<open>The House terms of a roster, each with its person, in the order of the roster.\<close>

fun rep_terms_of :: "person_item \<Rightarrow> (person \<times> term_rec) list" where
  "rep_terms_of (PersonObject p) = (case p_terms p of
       TermsArray items \<Rightarrow>
         concat (map (\<lambda>it. case it of TermObject t \<Rightarrow> (if t_type t = JStr ''rep'' then [(p, t)] else [])
                                  | _ \<Rightarrow> []) items)
     | _ \<Rightarrow> [])"
| "rep_terms_of _ = []"

definition all_rep_terms :: "person_item list \<Rightarrow> (person \<times> term_rec) list" where
  "all_rep_terms ps = concat (map rep_terms_of ps)"

text \<open>The House terms of a roster that are filed under a key, in the order of the roster.\<close>

definition terms_of_key :: "big_render \<Rightarrow> person_item list \<Rightarrow> string \<Rightarrow> (person \<times> term_rec) list" where
  "terms_of_key big ps key = filter (\<lambda>pt. term_key big (snd pt) = Some key) (all_rep_terms ps)"

text \<open>A term whose state, district, start and end can each be converted to a string: the
  four fields that lines 43 to 56 convert.\<close>

definition readable_term :: "term_rec \<Rightarrow> bool" where
  "readable_term t = (t_state t \<noteq> JNoString \<and> t_district t \<noteq> JNoString \<and>
     t_start t \<noteq> JNoString \<and> t_end t \<noteq> JNoString)"

text \<open>A roster on which no read of the loops throws: every person is an object or a
  primitive other than \<^verbatim>\<open>null\<close>, its \<^verbatim>\<open>terms\<close> are falsy or an array without \<^verbatim>\<open>null\<close>
  elements, its House terms are readable, and the name of a person with a House term can
  be put together. Nothing is asked of the dates being dates or of the state being
  there.\<close>

fun well_shaped :: "person_item \<Rightarrow> bool" where
  "well_shaped PersonNull = False"
| "well_shaped PersonPrim = True"
| "well_shaped (PersonObject p) = (case p_terms p of
       TermsNotArray \<Rightarrow> False
     | TermsFalsy \<Rightarrow> True
     | TermsArray items \<Rightarrow>
         TermNull \<notin> set items \<and>
         list_all (\<lambda>pt. readable_term (snd pt)) (rep_terms_of (PersonObject p)) \<and>
         (rep_terms_of (PersonObject p) = [] \<or> normalizeName p \<noteq> None))"

text \<open>A candidate \<open>c\<close> stands in the array under \<open>key\<close>.\<close>

definition cand_in :: "cand_map \<Rightarrow> string \<Rightarrow> candidate \<Rightarrow> bool" where
  "cand_in m key c = (case map_of m key of None \<Rightarrow> False | Some arr \<Rightarrow> c \<in> set arr)"

text \<open>The array under \<open>key\<close>, empty when the map has no such key.\<close>

definition cands_at :: "cand_map \<Rightarrow> string \<Rightarrow> candidate list" where
  "cands_at m key = (case map_of m key of None \<Rightarrow> [] | Some arr \<Rightarrow> arr)"

text \<open>The date rule of the specification: a term is current if its start is absent or not
  after the evaluation instant, and its end is absent or not before it. The start epoch
  of a term is the time value of its start, \<open>0\<close> when the start is absent.\<close>

definition current_term :: "int \<Rightarrow> date_ctor \<Rightarrow> term_rec \<Rightarrow> bool" where
  "current_term today Date_new t =
     ((\<not> truthy (t_start t) \<or> js_le (Date_new (t_start t)) (Num today)) \<and>
      (\<not> truthy (t_end t) \<or> js_le (Num today) (Date_new (t_end t))))"

definition start_epoch :: "date_ctor \<Rightarrow> term_rec \<Rightarrow> jsnum" where
  "start_epoch Date_new t = (if truthy (t_start t) then Date_new (t_start t) else Num 0)"

text \<open>The extraction rules of the specification at one field \<open>k\<close> of a district-geography
  object: (a) a field named \<open>CD\<close> and one to three digits, whose value is truthy and, as a
  string, a run of digits (the string \<^verbatim>\<open>"07"\<close>, the number \<open>7\<close>), read as a decimal
  integer; (b) a field whose name holds \<open>name\<close> and whose value holds \<open>district\<close>, of which
  the trailing digit run is read; and rule (c), the trailing digit run of the \<open>NAME\<close>
  field.\<close>

definition plain_digits :: "string \<Rightarrow> bool" where
  "plain_digits s = (s \<noteq> [] \<and> list_all is_digit s)"

definition rule_CD :: "big_render \<Rightarrow> cdobj \<Rightarrow> string \<Rightarrow> string option" where
  "rule_CD big cd k =
     (if test_CD k \<and> truthy (cd_get cd k)
      then (case to_string (cd_get cd k) of
              Some s \<Rightarrow> if plain_digits s then Some (render_run big s) else None
            | None \<Rightarrow> None)
      else None)"

definition rule_name :: "big_render \<Rightarrow> cdobj \<Rightarrow> string \<Rightarrow> string option" where
  "rule_name big cd k =
     (if includes_str (toLowerCase k) ''name'' \<and> truthy (cd_get cd k)
      then (case to_string (cd_get cd k) of
              Some s \<Rightarrow> if test_district s
                        then map_option (render_run big) (match_trailing_digits s) else None
            | None \<Rightarrow> None)
      else None)"

definition rule_NAME :: "big_render \<Rightarrow> cdobj \<Rightarrow> string option" where
  "rule_NAME big cd =
     (if truthy (cd_get cd ''NAME'')
      then (case to_string (cd_get cd ''NAME'') of
              Some s \<Rightarrow> map_option (render_run big) (match_trailing_digits s)
            | None \<Rightarrow> None)
      else None)"

definition at_large_one :: "string \<Rightarrow> string" where
  "at_large_one d = (if d = ''0'' then ''1'' else d)"

text \<open>An object whose \<open>CD\<close> fields, where they hold a truthy value, hold one that is a run
  of digits as a string; and an object of which every value can be converted to a
  string.\<close>

definition digit_CD_fields :: "cdobj \<Rightarrow> bool" where
  "digit_CD_fields cd =
     list_all (\<lambda>k. \<not> (test_CD k \<and> truthy (cd_get cd k)) \<or>
                   (case to_string (cd_get cd k) of Some s \<Rightarrow> plain_digits s | None \<Rightarrow> False))
       (map fst cd)"

definition convertible_fields :: "cdobj \<Rightarrow> bool" where
  "convertible_fields cd = list_all (\<lambda>kv. snd kv \<noteq> JNoString) cd"

text \<open>A key of the top-level geography mapping that the scan accepts.\<close>

definition is_congress_key :: "string \<Rightarrow> bool" where
  "is_congress_key key = includes_str (toLowerCase key) ''congress''"

text \<open>The keys that the objects of a collection yield.\<close>

definition extracted_keys :: "big_render \<Rightarrow> cdobj list \<Rightarrow> string set" where
  "extracted_keys big cds = {k. \<exists>cd \<in> set cds. cd_key big cd = Inr (Some k)}"

section \<open>Sample data\<close>

text \<open>A date constructor that agrees with Node's \<^verbatim>\<open>new Date\<close> on the strings the samples
  use: an ISO date is midnight UTC of that day, \<^verbatim>\<open>garbage\<close> is an invalid date.\<close>

definition Date_new_sample :: date_ctor where
  "Date_new_sample v = (case v of
       JStr s \<Rightarrow> (if s = ''2021-01-03'' then Num 1609632000000
                  else if s = ''1970-01-01'' then Num 0
                  else if s = ''1969-12-31'' then Num (- 86400000)
                  else NaN)
     | _ \<Rightarrow> NaN)"

text \<open>14 November 2023, 22:13:20 UTC.\<close>

definition today_sample :: int where
  "today_sample = 1700000000000"

text \<open>A rendering that agrees with Node on the one digit run above \<open>2^53\<close> that the samples
  use: \<^verbatim>\<open>String(parseInt("9007199254740993", 10))\<close> is \<^verbatim>\<open>"9007199254740992"\<close>.\<close>

definition big_sample :: big_render where
  "big_sample ds = (if ds = ''9007199254740993'' then ''9007199254740992'' else ''Infinity'')"

definition blank_term :: term_rec where
  "blank_term = \<lparr> t_type = JStr ''rep'', t_state = JUndefined, t_district = JUndefined,
     t_start = JUndefined, t_end = JUndefined, t_party = JUndefined, t_phone = JUndefined,
     t_url = JUndefined \<rparr>"

text \<open>\<^verbatim>\<open>{type: rep, state: "CA", district: "12", start: "2021-01-03"}\<close>, the scenario of the
  specification.\<close>

definition term_CA12 :: term_rec where
  "term_CA12 = blank_term\<lparr> t_state := JStr ''CA'', t_district := JStr ''12'',
     t_start := JStr ''2021-01-03'' \<rparr>"

text \<open>\<^verbatim>\<open>{type: rep, district: 5}\<close>: no state.\<close>

definition term_no_state :: term_rec where
  "term_no_state = blank_term\<lparr> t_district := JNum ''5'' \<rparr>"

text \<open>\<^verbatim>\<open>{type: rep, state: "CA", district: 12, start: "garbage"}\<close>: an unparseable start.\<close>

definition term_bad_start :: term_rec where
  "term_bad_start = blank_term\<lparr> t_state := JStr ''CA'', t_district := JNum ''12'',
     t_start := JStr ''garbage'' \<rparr>"

text \<open>\<^verbatim>\<open>{type: rep, state: "CA", district: 12, start: "1969-12-31", end: "1970-01-01"}\<close>.\<close>

definition term_1969 :: term_rec where
  "term_1969 = blank_term\<lparr> t_state := JStr ''CA'', t_district := JNum ''12'',
     t_start := JStr ''1969-12-31'', t_end := JStr ''1970-01-01'' \<rparr>"

text \<open>\<^verbatim>\<open>{type: rep, state: "CA", district: 12, start: "1970-01-01", end: "1970-01-01"}\<close>.\<close>

definition term_1970 :: term_rec where
  "term_1970 = blank_term\<lparr> t_state := JStr ''CA'', t_district := JNum ''12'',
     t_start := JStr ''1970-01-01'', t_end := JStr ''1970-01-01'' \<rparr>"

text \<open>\<^verbatim>\<open>{type: rep, state: "CA", district: 12, start: "1970-01-01", end: "2021-01-03"}\<close>: the
  same start as the term before, another end.\<close>

definition term_1970_long :: term_rec where
  "term_1970_long = blank_term\<lparr> t_state := JStr ''CA'', t_district := JNum ''12'',
     t_start := JStr ''1970-01-01'', t_end := JStr ''2021-01-03'' \<rparr>"

text \<open>\<^verbatim>\<open>{type: rep, state: "CA", district: 12, start: "2021-01-03", end: "2021-01-03"}\<close>: a
  term that has ended, with the latest start of the samples.\<close>

definition term_ended_2021 :: term_rec where
  "term_ended_2021 = blank_term\<lparr> t_state := JStr ''CA'', t_district := JNum ''12'',
     t_start := JStr ''2021-01-03'', t_end := JStr ''2021-01-03'' \<rparr>"

text \<open>\<^verbatim>\<open>{type: rep, state: "CA", district: 12, start: "1969-12-31"}\<close>: an open-ended term,
  with the earliest start of the samples.\<close>

definition term_since_1969 :: term_rec where
  "term_since_1969 = blank_term\<lparr> t_state := JStr ''CA'', t_district := JNum ''12'',
     t_start := JStr ''1969-12-31'' \<rparr>"

text \<open>\<^verbatim>\<open>{type: rep, state: "CA", district: {toString: 1}}\<close>: a district that cannot be
  converted to a string.\<close>

definition term_no_string :: term_rec where
  "term_no_string = blank_term\<lparr> t_state := JStr ''CA'', t_district := JNoString \<rparr>"

text \<open>The legislator Jane Doe with the given terms.\<close>

definition jane :: "term_item list \<Rightarrow> person" where
  "jane items = \<lparr> p_name = NameObject (JStr ''Jane'') JUndefined (JStr ''Doe''),
     p_first_name = JUndefined, p_last_name = JUndefined, p_full_name = JUndefined,
     p_party = JStr ''Democrat'', p_phone = JUndefined, p_url = JUndefined,
     p_website = JUndefined, p_id = IdObject (JStr ''D000001''), p_terms = TermsArray items \<rparr>"

text \<open>District-geography objects.\<close>

definition cd_CA12 :: cdobj where
  "cd_CA12 = [(''STATE'', JStr ''06''), (''NAME'', JStr ''Congressional District 12'')]"

definition cd_name_first :: cdobj where
  "cd_name_first = [(''NAMELSAD'', JStr ''Congressional District 7''), (''CD119'', JStr ''12''),
     (''STATE'', JStr ''06'')]"

definition cd_padded :: cdobj where
  "cd_padded = [(''CD119'', JStr ''07''), (''GEOID'', JStr ''0607'')]"

definition cd_unknown_state :: cdobj where
  "cd_unknown_state = [(''STATE'', JStr ''99''), (''CD119'', JStr ''03'')]"

definition cd_constructor :: cdobj where
  "cd_constructor = [(''STATE'', JStr ''constructor'')]"

definition cd_TX3 :: cdobj where
  "cd_TX3 = [(''CD119'', JStr ''03''), (''STATEFP'', JNum ''48'')]"

text \<open>\<^verbatim>\<open>{"CD119": "-5", "STATE": "06"}\<close> and \<^verbatim>\<open>{"CD119": "-7", "STATE": "06"}\<close>.\<close>

definition cd_minus5 :: cdobj where
  "cd_minus5 = [(''CD119'', JStr ''-5''), (''STATE'', JStr ''06'')]"

definition cd_minus7 :: cdobj where
  "cd_minus7 = [(''CD119'', JStr ''-7''), (''STATE'', JStr ''06'')]"

text \<open>Geography mappings.\<close>

definition geogs_mixed_case :: geographies where
  "geogs_mixed_case = [(''States'', Some []), (''119th CONGRESSional Districts'', Some [cd_CA12])]"

definition geogs_empty_match :: geographies where
  "geogs_empty_match = [(''congress'', Some []), (''Congressional Districts'', Some [cd_CA12])]"

definition geogs_two :: geographies where
  "geogs_two = [(''Congressional Districts'', Some [cd_CA12, cd_unknown_state, cd_TX3, cd_CA12])]"

definition geogs_minus :: geographies where
  "geogs_minus = [(''Congressional Districts'', Some [cd_minus5, cd_minus7])]"

text \<open>Rosters.\<close>

definition roster_malformed :: "person_item list" where
  "roster_malformed = [PersonObject (jane [TermObject term_no_state, TermObject term_bad_start])]"

definition roster_current :: "person_item list" where
  "roster_current = [PersonObject (jane [TermObject term_ended_2021, TermObject term_since_1969])]"

definition roster_former :: "person_item list" where
  "roster_former = [PersonObject (jane [TermObject term_1969, TermObject term_1970, TermObject term_1970_long])]"

definition roster_broken :: "person_item list" where
  "roster_broken = [PersonObject (jane [TermObject term_CA12]), PersonNull]"

definition roster_no_string :: "person_item list" where
  "roster_no_string = [PersonObject (jane [TermObject term_no_string])]"

text \<open>The candidate of a sample term of Jane Doe, and an index entry.\<close>

definition cand_sample :: "term_item list \<Rightarrow> term_rec \<Rightarrow> candidate" where
  "cand_sample items t = \<lparr> c_person = jane items, c_term = t,
     isCurrent = current_term today_sample Date_new_sample t,
     c_start = start_epoch Date_new_sample t \<rparr>"

definition entry_sample :: entry where
  "entry_sample = \<lparr> e_name = JStr ''Jane Doe'', e_party = JStr ''Democrat'', e_phone = JStr [],
     e_url = JStr [], e_bioguide = JStr ''D000001'', raw_person = jane [TermObject term_CA12],
     raw_term = term_CA12 \<rparr>"

text \<open>\<^verbatim>\<open>{"CD119": {"toString": 1}, "STATE": "99"}\<close>: a value that cannot be converted to a
  string.\<close>

definition cd_no_string :: cdobj where
  "cd_no_string = [(''CD119'', JNoString), (''STATE'', JStr ''99'')]"

section \<open>Digits, decimal rendering and the at-large pattern\<close>

lemma digit_nth_is_digit: "n < 10 \<Longrightarrow> is_digit (''0123456789'' ! n)"
proof -
  assume "n < 10"
  then have "n \<in> {0, 1, 2, 3, 4, 5, 6, 7, 8, 9}" by auto
  then show ?thesis by (auto simp: is_digit_def)
qed

lemma digit_nth_zero: "n < 10 \<Longrightarrow> (''0123456789'' ! n = CHR ''0'') = (n = 0)"
proof -
  assume "n < 10"
  then have "n \<in> {0, 1, 2, 3, 4, 5, 6, 7, 8, 9}" by auto
  then show ?thesis by auto
qed

lemma show_nat_digits: "list_all is_digit (show_nat n) \<and> show_nat n \<noteq> []"
proof (induction n rule: show_nat.induct)
  case (1 n)
  show ?case
  proof (cases "n < 10")
    case True
    then show ?thesis by (subst show_nat.simps, subst (2) show_nat.simps) (simp add: digit_nth_is_digit)
  next
    case False
    then have m: "is_digit (''0123456789'' ! (n mod 10))" by (simp add: digit_nth_is_digit)
    from False 1 have ih: "list_all is_digit (show_nat (n div 10))" by simp
    have eq: "show_nat n = show_nat (n div 10) @ [''0123456789'' ! (n mod 10)]"
      using False by (subst show_nat.simps) simp
    show ?thesis unfolding eq using ih m by simp
  qed
qed

lemma show_nat_zero: "(show_nat n = ''0'') = (n = 0)"
proof (cases "n < 10")
  case True
  then have "show_nat n = [''0123456789'' ! n]" by (subst show_nat.simps) simp
  with True show ?thesis using digit_nth_zero[of n] by simp
next
  case False
  have "show_nat (n div 10) \<noteq> []" using show_nat_digits by blast
  then obtain c cs where cs: "show_nat (n div 10) = c # cs" by (cases "show_nat (n div 10)") auto
  have eq: "show_nat n = show_nat (n div 10) @ [''0123456789'' ! (n mod 10)]"
    using False by (subst show_nat.simps) simp
  from False have "n \<noteq> 0" by simp
  then show ?thesis unfolding eq cs by simp
qed

lemma lower_char_id: "c \<notin> set upper_chars \<Longrightarrow> lower_char c = c"
proof -
  assume "c \<notin> set upper_chars"
  moreover have "length upper_chars = length lower_chars" by (simp add: upper_chars_def lower_chars_def)
  ultimately have "map_of (zip upper_chars lower_chars) c = None"
    by (simp add: map_of_zip_is_None)
  then show ?thesis by (simp add: lower_char_def)
qed

lemma digit_not_upper: "is_digit c \<Longrightarrow> c \<notin> set upper_chars"
  by (auto simp: is_digit_def upper_chars_def)

lemma lower_char_digit: "is_digit c \<Longrightarrow> lower_char c = c"
  by (simp add: lower_char_id digit_not_upper)

lemma digits_not_at_large: "list_all is_digit s \<Longrightarrow> \<not> test_at_large s"
proof (induction s)
  case Nil
  then show ?case by simp
next
  case (Cons c cs)
  then have "is_digit c" by simp
  then have "lower_char c \<noteq> CHR ''a''" by (auto simp: lower_char_digit is_digit_def)
  then have "\<not> at_large_at (c # cs)" by (cases cs) auto
  with Cons show ?case by simp
qed

lemma match_digits_Some: "match_digits s = Some m \<Longrightarrow> m \<noteq> [] \<and> list_all is_digit m"
proof -
  assume a: "match_digits s = Some m"
  let ?r = "dropWhile (\<lambda>c. \<not> is_digit c) s"
  from a have r: "?r \<noteq> []" and m: "m = takeWhile is_digit ?r"
    by (auto simp: match_digits_def Let_def split: if_splits)
  from r have "is_digit (hd ?r)" using hd_dropWhile[of "\<lambda>c. \<not> is_digit c" s] by auto
  with r m have "m \<noteq> []" by (cases ?r) auto
  moreover have "list_all is_digit m" unfolding m list_all_iff using set_takeWhileD by fastforce
  ultimately show ?thesis by simp
qed

lemma parseInt_run_digits:
  "ds \<noteq> [] \<Longrightarrow> list_all is_digit ds \<Longrightarrow> parseInt_run ds = Some (False, ds)"
proof -
  assume ne: "ds \<noteq> []" and d: "list_all is_digit ds"
  then obtain c cs where ds: "ds = c # cs" by (cases ds) auto
  with d have c: "is_digit c" by simp
  then have ns: "\<not> js_isspace c" and nm: "c \<noteq> CHR ''-''" and np: "c \<noteq> CHR ''+''"
    by (auto simp: is_digit_def js_isspace_def)
  have tw: "takeWhile is_digit ds = ds" using d by (simp add: list_all_iff)
  show ?thesis using ns nm np tw ds by (simp add: parseInt_run_def Let_def)
qed

lemma digit_run_string:
  "ds \<noteq> [] \<Longrightarrow> list_all is_digit ds \<Longrightarrow> String_parseInt big ds = render_run big ds"
  by (simp add: String_parseInt_def parseInt_run_digits)

lemma render_run_exact:
  "digits_value ds \<le> 9007199254740992 \<Longrightarrow> render_run big ds = show_nat (digits_value ds)"
  by (simp add: render_run_def)

lemma render_run_big:
  "\<not> digits_value ds \<le> 9007199254740992 \<Longrightarrow> render_run big ds = big ds"
  by (simp add: render_run_def)

lemma lower_hyphen: "lower_char CHR ''-'' = CHR ''-''"
  by (rule lower_char_id) (simp add: upper_chars_def)

lemma normalize_true: "normalize_district big (JBool True) = Some ''true''"
  by (simp add: normalize_district_def districtRaw1_def lower_char_def upper_chars_def
      lower_chars_def)

lemma normalize_string_digits:
  assumes "match_digits s = Some m"
  shows "normalize_district big (JStr s) =
     Some (if digits_value m \<le> 9007199254740992
           then (if digits_value m = 0 then ''1'' else show_nat (digits_value m))
           else (if big m = [] \<or> big m = ''0'' \<or> test_at_large (big m) then ''1'' else big m))"
proof -
  from assms have m: "m \<noteq> []" "list_all is_digit m" using match_digits_Some by blast+
  then have r: "districtRaw1 big (JStr s) = JStr (render_run big m)"
    using assms by (simp add: districtRaw1_def digit_run_string)
  show ?thesis
  proof (cases "digits_value m \<le> 9007199254740992")
    case True
    then have rr: "render_run big m = show_nat (digits_value m)" by (rule render_run_exact)
    have ne: "show_nat (digits_value m) \<noteq> []" using show_nat_digits by blast
    have al: "\<not> test_at_large (show_nat (digits_value m))"
      using show_nat_digits digits_not_at_large by blast
    show ?thesis using r rr ne al True
      by (simp add: normalize_district_def Let_def show_nat_zero)
  next
    case False
    then have rr: "render_run big m = big m" by (rule render_run_big)
    show ?thesis using r rr False by (simp add: normalize_district_def Let_def)
  qed
qed

lemma normalize_string_plain:
  assumes "match_digits s = None"
  shows "normalize_district big (JStr s) = Some (if s = [] \<or> test_at_large s then ''1'' else s)"
proof -
  have r: "districtRaw1 big (JStr s) = JStr s" using assms by (simp add: districtRaw1_def)
  have z: "s \<noteq> ''0''" using assms by (auto simp: match_digits_def is_digit_def)
  show ?thesis using r z by (simp add: normalize_district_def Let_def)
qed

text \<open>The rendering of a number holds no letter \<open>a\<close>; on such a text the at-large pattern
  does not match.\<close>

lemma no_a_not_at_large:
  "CHR ''a'' \<notin> set s \<Longrightarrow> CHR ''A'' \<notin> set s \<Longrightarrow> \<not> test_at_large s"
proof (induction s)
  case Nil
  then show ?case by simp
next
  case (Cons c cs)
  then have c: "c \<noteq> CHR ''a''" "c \<noteq> CHR ''A''" by auto
  have "lower_char c \<noteq> CHR ''a''"
  proof (cases "c \<in> set upper_chars")
    case False
    then show ?thesis using c by (simp add: lower_char_id)
  next
    case True
    then show ?thesis using c
      by (auto simp: upper_chars_def lower_char_def lower_chars_def)
  qed
  then have "\<not> at_large_at (c # cs)" by (cases cs) auto
  with Cons show ?case by simp
qed

section \<open>District normalisation of a House term\<close>

text \<open>
  Claim C4, as amended. The normalized district of a term is determined by the raw
  district value as follows. A string that holds a digit run gives the first run, parsed as
  an integer and rendered again: the run without its leading zeros while its value is at
  most \<open>2^53\<close>, and \<open>1\<close> when that value is zero; above \<open>2^53\<close> the rendering of the nearest
  double stands in for the run. The at-large pattern is not consulted on the text of such
  a string. A string without digits gives \<open>1\<close> when it is empty or matches the at-large
  pattern, and otherwise stays as it is. A missing value, \<^verbatim>\<open>null\<close>, \<^verbatim>\<open>false\<close>, the number zero
  and \<open>NaN\<close> give \<open>1\<close>, and \<^verbatim>\<open>true\<close> gives \<open>true\<close>; any other number gives its conversion to a
  string, whatever its sign or form. An object gives its conversion to a string, or \<open>1\<close> when that is empty, \<open>0\<close> or
  at-large; on an object whose conversion throws the normalisation throws.
\<close>

theorem C4_normalize_district:
  "normalize_district big raw = (case raw of
       JStr s \<Rightarrow> (case match_digits s of
                    Some m \<Rightarrow>
                      Some (if digits_value m \<le> 9007199254740992
                            then (if digits_value m = 0 then ''1'' else show_nat (digits_value m))
                            else (if big m = [] \<or> big m = ''0'' \<or> test_at_large (big m)
                                  then ''1'' else big m))
                  | None \<Rightarrow> Some (if s = [] \<or> test_at_large s then ''1'' else s))
     | JNum s \<Rightarrow> Some (if s = ''0'' \<or> s = ''NaN'' \<or> s = [] \<or> test_at_large s then ''1'' else s)
     | JBool b \<Rightarrow> Some (if b then ''true'' else ''1'')
     | JObject s \<Rightarrow> Some (if s = [] \<or> s = ''0'' \<or> test_at_large s then ''1'' else s)
     | JUndefined \<Rightarrow> Some ''1''
     | JNull \<Rightarrow> Some ''1''
     | JNoString \<Rightarrow> None)"
proof (cases raw)
  case (JStr s)
  then show ?thesis
    by (cases "match_digits s") (simp_all add: normalize_string_digits normalize_string_plain)
next
  case (JNum s)
  then show ?thesis by (simp add: normalize_district_def districtRaw1_def Let_def)
next
  case (JBool b)
  then show ?thesis
    by (cases b) (simp_all add: normalize_true, simp add: normalize_district_def districtRaw1_def)
next
  case (JObject s)
  then show ?thesis by (simp add: normalize_district_def districtRaw1_def Let_def)
qed (simp_all add: normalize_district_def districtRaw1_def)

text \<open>Claim C4, as amended, at the raw values \<^verbatim>\<open>"At Large"\<close>, \<^verbatim>\<open>"012"\<close>, \<^verbatim>\<open>0\<close>, \<^verbatim>\<open>"0"\<close>, \<^verbatim>\<open>""\<close>,
  \<^verbatim>\<open>"at-large"\<close>, \<^verbatim>\<open>"9007199254740993"\<close>, the numbers \<open>NaN\<close> and \<open>10^21\<close>, and an object without a
  conversion to a string.\<close>

theorem C4_witness:
  "normalize_district big_sample (JStr ''At Large'') = Some ''1'' \<and>
   normalize_district big_sample (JStr ''012'') = Some ''12'' \<and>
   normalize_district big_sample (JNum ''0'') = Some ''1'' \<and>
   normalize_district big_sample (JStr ''0'') = Some ''1'' \<and>
   normalize_district big_sample (JStr []) = Some ''1'' \<and>
   normalize_district big_sample (JStr ''at-large'') = Some ''1'' \<and>
   normalize_district big_sample (JStr ''9007199254740993'') = Some ''9007199254740992'' \<and>
   normalize_district big_sample (JNum ''NaN'') = Some ''1'' \<and>
   normalize_district big_sample (JNum ''1e+21'') = Some ''1e+21'' \<and>
   normalize_district big_sample JNoString = None"
proof (intro conjI)
  have m1: "match_digits ''At Large'' = None" by (simp add: match_digits_def is_digit_def)
  have l1: "test_at_large ''At Large'' = True" by code_simp
  show "normalize_district big_sample (JStr ''At Large'') = Some ''1''"
    unfolding C4_normalize_district [of big_sample "JStr ''At Large''"] jsval.case m1 option.case l1
    by simp
  have m2: "match_digits ''012'' = Some ''012''" by (simp add: match_digits_def is_digit_def)
  have v2: "digits_value ''012'' = 12" by (simp add: digits_value_def digit_value_def)
  show "normalize_district big_sample (JStr ''012'') = Some ''12''"
    unfolding C4_normalize_district [of big_sample "JStr ''012''"] jsval.case m2 option.case v2
    by (simp add: show_nat.simps)
  show "normalize_district big_sample (JNum ''0'') = Some ''1''"
    unfolding C4_normalize_district [of big_sample "JNum ''0''"] by simp
  have m4: "match_digits ''0'' = Some ''0''" by (simp add: match_digits_def is_digit_def)
  have v4: "digits_value ''0'' = 0" by (simp add: digits_value_def digit_value_def)
  show "normalize_district big_sample (JStr ''0'') = Some ''1''"
    unfolding C4_normalize_district [of big_sample "JStr ''0''"] jsval.case m4 option.case v4
    by simp
  have m5: "match_digits [] = None" by (simp add: match_digits_def)
  show "normalize_district big_sample (JStr []) = Some ''1''"
    unfolding C4_normalize_district [of big_sample "JStr []"] jsval.case m5 option.case
    by simp
  have m6: "match_digits ''at-large'' = None" by (simp add: match_digits_def is_digit_def)
  have l6: "test_at_large ''at-large'' = True" by code_simp
  show "normalize_district big_sample (JStr ''at-large'') = Some ''1''"
    unfolding C4_normalize_district [of big_sample "JStr ''at-large''"] jsval.case m6 option.case l6
    by simp
  have m: "match_digits ''9007199254740993'' = Some ''9007199254740993''"
    by (simp add: match_digits_def is_digit_def)
  have v: "digits_value ''9007199254740993'' = 9007199254740993"
    by (simp add: digits_value_def digit_value_def)
  have b: "big_sample ''9007199254740993'' = ''9007199254740992''" by (simp add: big_sample_def)
  have l: "test_at_large ''9007199254740992'' = False"
    using no_a_not_at_large [of "''9007199254740992''"] by simp
  have n: "\<not> (9007199254740993::nat) \<le> 9007199254740992" by simp
  have e: "(''9007199254740992'' = ''0'') = False" "(''9007199254740992'' = []) = False"
    by simp_all
  show "normalize_district big_sample (JStr ''9007199254740993'') = Some ''9007199254740992''"
    unfolding C4_normalize_district [of big_sample "JStr ''9007199254740993''"]
      jsval.case m option.case v b l e
    using n by (simp only: if_False simp_thms)
  show "normalize_district big_sample (JNum ''NaN'') = Some ''1''"
    unfolding C4_normalize_district [of big_sample "JNum ''NaN''"] by simp
  have l9: "test_at_large ''1e+21'' = False"
    using no_a_not_at_large [of "''1e+21''"] by simp
  show "normalize_district big_sample (JNum ''1e+21'') = Some ''1e+21''"
    unfolding C4_normalize_district [of big_sample "JNum ''1e+21''"] jsval.case l9 by simp
  show "normalize_district big_sample JNoString = None"
    unfolding C4_normalize_district [of big_sample JNoString] by simp
qed

text \<open>Claim C4 as stated fails: the raw text \<^verbatim>\<open>"At Large 2"\<close> matches the at-large pattern
  and is normalized to \<open>2\<close>; the raw text \<^verbatim>\<open>"abc"\<close> holds no digit run and matches no
  at-large pattern, and is normalized to itself, which is no rendering of an integer; the
  raw number \<open>-3\<close> is normalized to \<open>-3\<close>, not to its digit run \<open>3\<close>.\<close>

theorem C4_counterexample:
  "test_at_large ''At Large 2'' \<and>
   normalize_district big_sample (JStr ''At Large 2'') = Some ''2'' \<and>
   match_digits ''abc'' = None \<and> normalize_district big_sample (JStr ''abc'') = Some ''abc'' \<and>
   normalize_district big_sample (JNum ''-3'') = Some ''-3''"
  by (simp add: normalize_district_def districtRaw1_def match_digits_def is_digit_def
      String_parseInt_def parseInt_run_def render_run_def digits_value_def digit_value_def
      show_nat.simps lower_char_def upper_chars_def lower_chars_def toLowerCase_def
      js_isspace_def)

section \<open>The loops of the index build\<close>

lemma map_of_push_same:
  "map_of (push_candidate key c m) key =
     Some ((case map_of m key of None \<Rightarrow> [] | Some arr \<Rightarrow> arr) @ [c])"
  by (induction key c m rule: push_candidate.induct) auto

lemma map_of_push_other:
  "k \<noteq> key \<Longrightarrow> map_of (push_candidate key c m) k = map_of m k"
  by (induction key c m rule: push_candidate.induct) auto

lemma cands_at_push:
  "cands_at (push_candidate k c m) key = cands_at m key @ (if k = key then [c] else [])"
  by (cases "k = key") (simp_all add: cands_at_def map_of_push_same map_of_push_other)

lemma push_nonempty:
  "list_all (\<lambda>ka. snd ka \<noteq> []) m \<Longrightarrow> list_all (\<lambda>ka. snd ka \<noteq> []) (push_candidate key c m)"
  by (induction key c m rule: push_candidate.induct) auto

lemma push_named:
  "list_all (\<lambda>ka. list_all (\<lambda>a. normalizeName (c_person a) \<noteq> None) (snd ka)) m \<Longrightarrow>
   normalizeName (c_person c) \<noteq> None \<Longrightarrow>
     list_all (\<lambda>ka. list_all (\<lambda>a. normalizeName (c_person a) \<noteq> None) (snd ka))
       (push_candidate key c m)"
  by (induction key c m rule: push_candidate.induct) auto

text \<open>The candidate of a term, where the two dates can be converted: its flag is the date
  rule of the specification, its start the start epoch.\<close>

lemma new_Date_Some: "v \<noteq> JNoString \<Longrightarrow> new_Date Date_new v = Some (Date_new v)"
  by (cases v) (simp_all add: new_Date_def)

lemma new_Date_None: "new_Date Date_new JNoString = None"
  by (simp add: new_Date_def)

lemma date_field_eq:
  "v \<noteq> JNoString \<Longrightarrow>
     date_field Date_new v = Some (if truthy v then Some (Date_new v) else None)"
  by (cases "truthy v") (simp_all add: date_field_def new_Date_Some)

lemma date_field_JNoString: "date_field Date_new JNoString = None"
  by (simp add: date_field_def new_Date_None)

lemma term_candidate_eq:
  assumes "t_start t \<noteq> JNoString" and "t_end t \<noteq> JNoString"
  shows "term_candidate today Date_new p t =
     Some \<lparr> c_person = p, c_term = t, isCurrent = current_term today Date_new t,
            c_start = start_epoch Date_new t \<rparr>"
  using assms
  by (simp add: term_candidate_def date_field_eq current_term_def start_epoch_def)

lemma term_candidate_None:
  "(term_candidate today Date_new p t = None) = (t_start t = JNoString \<or> t_end t = JNoString)"
proof (cases "t_start t = JNoString")
  case True
  then show ?thesis by (simp add: term_candidate_def date_field_JNoString)
next
  case False
  note start = False
  show ?thesis
  proof (cases "t_end t = JNoString")
    case True
    then show ?thesis
      by (simp add: term_candidate_def date_field_JNoString date_field_eq[OF start])
  next
    case False
    with start show ?thesis using term_candidate_eq[of t today Date_new p] by simp
  qed
qed

lemma term_candidate_Some:
  assumes "term_candidate today Date_new p t = Some c"
  shows "c_person c = p \<and> c_term c = t \<and> isCurrent c = current_term today Date_new t \<and>
     c_start c = start_epoch Date_new t"
proof -
  from assms have "\<not> (t_start t = JNoString \<or> t_end t = JNoString)"
    using term_candidate_None[of today Date_new p t] by simp
  then have "term_candidate today Date_new p t =
     Some \<lparr> c_person = p, c_term = t, isCurrent = current_term today Date_new t,
            c_start = start_epoch Date_new t \<rparr>"
    using term_candidate_eq by simp
  with assms show ?thesis by auto
qed

text \<open>The key of a term exists exactly where state and district can be converted.\<close>

lemma normalize_district_None: "(normalize_district big raw = None) = (raw = JNoString)"
proof (cases raw)
  case (JStr s)
  then show ?thesis
    by (cases "match_digits s") (simp_all add: normalize_string_digits normalize_string_plain)
next
  case (JBool b)
  then show ?thesis
    by (cases b) (simp_all add: normalize_true, simp add: normalize_district_def districtRaw1_def)
qed (simp_all add: normalize_district_def districtRaw1_def Let_def)

lemma term_key_None:
  "(term_key big t = None) = (t_state t = JNoString \<or> t_district t = JNoString)"
proof -
  have s: "(to_string (t_state t) = None) = (t_state t = JNoString)"
    by (cases "t_state t") simp_all
  show ?thesis
    using normalize_district_None[of big "t_district t"] s
    by (auto simp: term_key_def split: option.splits)
qed

lemma readable_term_key: "readable_term t \<Longrightarrow> \<exists>key. term_key big t = Some key"
  using term_key_None[of big t] by (cases "term_key big t") (auto simp: readable_term_def)

lemma readable_term_candidate:
  "readable_term t \<Longrightarrow> \<exists>c. term_candidate today Date_new p t = Some c"
  using term_candidate_None[of today Date_new p t]
  by (cases "term_candidate today Date_new p t") (auto simp: readable_term_def)

text \<open>The inner loop.\<close>

lemma term_loop_step:
  assumes "term_loop big today Date_new p (t # ts) m = Inr m'"
  shows "\<exists>key c. term_key big t = Some key \<and> term_candidate today Date_new p t = Some c \<and>
     term_loop big today Date_new p ts (push_candidate key c m) = Inr m'"
proof (cases "term_key big t")
  case None
  with assms show ?thesis by simp
next
  case (Some key)
  show ?thesis
  proof (cases "term_candidate today Date_new p t")
    case None
    with Some assms show ?thesis by simp
  next
    case c: (Some c)
    with Some assms show ?thesis by simp
  qed
qed

lemma term_loop_ok:
  "list_all readable_term ts \<Longrightarrow> \<exists>m'. term_loop big today Date_new p ts m = Inr m'"
proof (induction ts arbitrary: m)
  case Nil
  then show ?case by simp
next
  case (Cons t ts)
  then have r: "readable_term t" and rs: "list_all readable_term ts" by simp_all
  from r obtain key where key: "term_key big t = Some key" using readable_term_key by blast
  from r obtain c where c: "term_candidate today Date_new p t = Some c"
    using readable_term_candidate by blast
  from Cons.IH[OF rs, of "push_candidate key c m"] key c show ?case by simp
qed

lemma term_loop_cands:
  "term_loop big today Date_new p ts m = Inr m' \<Longrightarrow>
     map Some (cands_at m' key) =
       map Some (cands_at m key) @
       map (term_candidate today Date_new p) (filter (\<lambda>t. term_key big t = Some key) ts)"
proof (induction ts arbitrary: m)
  case Nil
  then show ?case by simp
next
  case (Cons t ts)
  from term_loop_step[OF Cons.prems] obtain k c where k: "term_key big t = Some k"
    and c: "term_candidate today Date_new p t = Some c"
    and rest: "term_loop big today Date_new p ts (push_candidate k c m) = Inr m'" by blast
  from Cons.IH[OF rest] have ih: "map Some (cands_at m' key) =
       map Some (cands_at (push_candidate k c m) key) @
       map (term_candidate today Date_new p) (filter (\<lambda>t. term_key big t = Some key) ts)" .
  show ?case
  proof (cases "k = key")
    case True
    with ih k c show ?thesis by (simp add: cands_at_push)
  next
    case False
    with ih k c show ?thesis by (simp add: cands_at_push)
  qed
qed

lemma term_loop_nonempty:
  "term_loop big today Date_new p ts m = Inr m' \<Longrightarrow> list_all (\<lambda>ka. snd ka \<noteq> []) m \<Longrightarrow>
     list_all (\<lambda>ka. snd ka \<noteq> []) m'"
proof (induction ts arbitrary: m)
  case Nil
  then show ?case by simp
next
  case (Cons t ts)
  from term_loop_step[OF Cons.prems(1)] obtain k c
    where rest: "term_loop big today Date_new p ts (push_candidate k c m) = Inr m'" by blast
  from Cons.prems(2) have "list_all (\<lambda>ka. snd ka \<noteq> []) (push_candidate k c m)"
    by (rule push_nonempty)
  with Cons.IH[OF rest] show ?case .
qed

lemma term_loop_named:
  "term_loop big today Date_new p ts m = Inr m' \<Longrightarrow> normalizeName p \<noteq> None \<Longrightarrow>
   list_all (\<lambda>ka. list_all (\<lambda>a. normalizeName (c_person a) \<noteq> None) (snd ka)) m \<Longrightarrow>
     list_all (\<lambda>ka. list_all (\<lambda>a. normalizeName (c_person a) \<noteq> None) (snd ka)) m'"
proof (induction ts arbitrary: m)
  case Nil
  then show ?case by simp
next
  case (Cons t ts)
  from term_loop_step[OF Cons.prems(1)] obtain k c
    where c: "term_candidate today Date_new p t = Some c"
      and rest: "term_loop big today Date_new p ts (push_candidate k c m) = Inr m'" by blast
  from c have "c_person c = p" using term_candidate_Some by blast
  with Cons.prems(2) have "normalizeName (c_person c) \<noteq> None" by simp
  with Cons.prems(3)
  have "list_all (\<lambda>ka. list_all (\<lambda>a. normalizeName (c_person a) \<noteq> None) (snd ka))
          (push_candidate k c m)"
    by (rule push_named)
  with Cons.IH[OF rest Cons.prems(2)] show ?case .
qed

text \<open>The filter of line 42 and the House terms of a person.\<close>

lemma filter_rep_ok: "TermNull \<notin> set items \<Longrightarrow> \<exists>ts. filter_rep items = Inr ts"
  by (induction items rule: filter_rep.induct) auto

lemma filter_rep_object:
  assumes "filter_rep (TermObject u # items) = Inr ts"
  shows "\<exists>rs. filter_rep items = Inr rs \<and> ts = (if t_type u = JStr ''rep'' then u # rs else rs)"
  using assms by (cases "filter_rep items") simp_all

lemma filter_rep_terms:
  "filter_rep items = Inr ts \<Longrightarrow>
     concat (map (\<lambda>it. case it of
                         TermObject t \<Rightarrow> (if t_type t = JStr ''rep'' then [(p, t)] else [])
                       | _ \<Rightarrow> []) items) = map (Pair p) ts"
proof (induction items arbitrary: ts)
  case Nil
  then show ?case by simp
next
  case (Cons it items)
  show ?case
  proof (cases it)
    case TermNull
    with Cons.prems show ?thesis by simp
  next
    case TermPrim
    with Cons.prems have "filter_rep items = Inr ts" by simp
    from Cons.IH[OF this] TermPrim show ?thesis by simp
  next
    case (TermObject u)
    with Cons.prems obtain rs where rs: "filter_rep items = Inr rs"
      and ts: "ts = (if t_type u = JStr ''rep'' then u # rs else rs)"
      using filter_rep_object by blast
    from Cons.IH[OF rs] TermObject ts show ?thesis by simp
  qed
qed

lemma rep_terms_of_filter:
  "p_terms p = TermsArray items \<Longrightarrow> filter_rep items = Inr ts \<Longrightarrow>
     rep_terms_of (PersonObject p) = map (Pair p) ts"
  by (simp add: filter_rep_terms)

lemma rep_terms_of_person: "(q, t) \<in> set (rep_terms_of (PersonObject p)) \<Longrightarrow> q = p"
  by (cases "p_terms p") (auto split: term_item.splits if_splits)

text \<open>One turn of the outer loop on a person with an array of terms.\<close>

lemma person_loop_object:
  assumes "person_loop big today Date_new (PersonObject p # ps) m = Inr m'"
  shows "(p_terms p = TermsFalsy \<and> rep_terms_of (PersonObject p) = [] \<and>
           person_loop big today Date_new ps m = Inr m') \<or>
         (\<exists>items ts m2. p_terms p = TermsArray items \<and> filter_rep items = Inr ts \<and>
           rep_terms_of (PersonObject p) = map (Pair p) ts \<and>
           term_loop big today Date_new p ts m = Inr m2 \<and>
           person_loop big today Date_new ps m2 = Inr m')"
proof (cases "p_terms p")
  case TermsFalsy
  with assms show ?thesis by simp
next
  case TermsNotArray
  with assms show ?thesis by simp
next
  case (TermsArray items)
  show ?thesis
  proof (cases "filter_rep items")
    case (Inl e)
    with TermsArray assms show ?thesis by simp
  next
    case (Inr ts)
    note ts = Inr
    show ?thesis
    proof (cases "term_loop big today Date_new p ts m")
      case (Inl e)
      with TermsArray ts assms show ?thesis by simp
    next
      case (Inr m2)
      with TermsArray ts assms have "person_loop big today Date_new ps m2 = Inr m'" by simp
      with TermsArray ts Inr rep_terms_of_filter[OF TermsArray ts] show ?thesis by blast
    qed
  qed
qed

lemma person_loop_cands:
  "person_loop big today Date_new ps m = Inr m' \<Longrightarrow>
     map Some (cands_at m' key) =
       map Some (cands_at m key) @
       map (\<lambda>pt. term_candidate today Date_new (fst pt) (snd pt))
         (filter (\<lambda>pt. term_key big (snd pt) = Some key) (all_rep_terms ps))"
proof (induction ps arbitrary: m)
  case Nil
  then show ?case by (simp add: all_rep_terms_def)
next
  case (Cons it ps)
  show ?case
  proof (cases it)
    case PersonNull
    with Cons.prems show ?thesis by simp
  next
    case PersonPrim
    with Cons.prems have "person_loop big today Date_new ps m = Inr m'" by simp
    from Cons.IH[OF this] PersonPrim show ?thesis by (simp add: all_rep_terms_def)
  next
    case (PersonObject p)
    from Cons.prems PersonObject
    have "person_loop big today Date_new (PersonObject p # ps) m = Inr m'" by simp
    from person_loop_object[OF this] show ?thesis
    proof (elim disjE conjE exE)
      assume e: "rep_terms_of (PersonObject p) = []"
        and r: "person_loop big today Date_new ps m = Inr m'"
      from Cons.IH[OF r] e PersonObject show ?thesis by (simp add: all_rep_terms_def)
    next
      fix items ts m2
      assume rt: "rep_terms_of (PersonObject p) = map (Pair p) ts"
        and tl: "term_loop big today Date_new p ts m = Inr m2"
        and r: "person_loop big today Date_new ps m2 = Inr m'"
      have f: "filter (\<lambda>pt. term_key big (snd pt) = Some key) (map (Pair p) ts) =
          map (Pair p) (filter (\<lambda>t. term_key big t = Some key) ts)"
        by (induction ts) simp_all
      have a: "all_rep_terms (it # ps) = map (Pair p) ts @ all_rep_terms ps"
        using rt PersonObject by (simp add: all_rep_terms_def)
      have "map Some (cands_at m' key) =
          (map Some (cands_at m key) @
           map (term_candidate today Date_new p) (filter (\<lambda>t. term_key big t = Some key) ts)) @
          map (\<lambda>pt. term_candidate today Date_new (fst pt) (snd pt))
            (filter (\<lambda>pt. term_key big (snd pt) = Some key) (all_rep_terms ps))"
        using Cons.IH[OF r, unfolded term_loop_cands[OF tl]] .
      then show ?thesis unfolding a by (simp add: f comp_def)
    qed
  qed
qed

lemma person_loop_nonempty:
  "person_loop big today Date_new ps m = Inr m' \<Longrightarrow> list_all (\<lambda>ka. snd ka \<noteq> []) m \<Longrightarrow>
     list_all (\<lambda>ka. snd ka \<noteq> []) m'"
proof (induction ps arbitrary: m)
  case Nil
  then show ?case by simp
next
  case (Cons it ps)
  show ?case
  proof (cases it)
    case PersonNull
    with Cons.prems show ?thesis by simp
  next
    case PersonPrim
    with Cons.prems have "person_loop big today Date_new ps m = Inr m'" by simp
    from Cons.IH[OF this Cons.prems(2)] show ?thesis .
  next
    case (PersonObject p)
    from Cons.prems PersonObject
    have "person_loop big today Date_new (PersonObject p # ps) m = Inr m'" by simp
    from person_loop_object[OF this] show ?thesis
    proof (elim disjE conjE exE)
      assume r: "person_loop big today Date_new ps m = Inr m'"
      from Cons.IH[OF r Cons.prems(2)] show ?thesis .
    next
      fix items ts m2
      assume tl: "term_loop big today Date_new p ts m = Inr m2"
        and r: "person_loop big today Date_new ps m2 = Inr m'"
      from Cons.IH[OF r term_loop_nonempty[OF tl Cons.prems(2)]] show ?thesis .
    qed
  qed
qed

text \<open>On a roster that can be read the first loop completes, and every candidate it
  files has a person whose name can be put together.\<close>

lemma well_shaped_object:
  assumes "well_shaped (PersonObject p)" and "p_terms p = TermsArray items"
  shows "\<exists>ts. filter_rep items = Inr ts \<and> rep_terms_of (PersonObject p) = map (Pair p) ts \<and>
     list_all readable_term ts \<and> (ts = [] \<or> normalizeName p \<noteq> None)"
proof -
  from assms have n: "TermNull \<notin> set items"
    and r: "list_all (\<lambda>pt. readable_term (snd pt)) (rep_terms_of (PersonObject p))"
    and nm: "rep_terms_of (PersonObject p) = [] \<or> normalizeName p \<noteq> None"
    by simp_all
  from n obtain ts where ts: "filter_rep items = Inr ts" using filter_rep_ok by blast
  have rt: "rep_terms_of (PersonObject p) = map (Pair p) ts"
    using assms(2) ts by (rule rep_terms_of_filter)
  from r have "list_all readable_term ts" unfolding rt by (simp add: list_all_iff)
  moreover from nm have "ts = [] \<or> normalizeName p \<noteq> None" unfolding rt by simp
  ultimately show ?thesis using ts rt by blast
qed

lemma person_loop_ok:
  "list_all well_shaped ps \<Longrightarrow>
   list_all (\<lambda>ka. list_all (\<lambda>a. normalizeName (c_person a) \<noteq> None) (snd ka)) m \<Longrightarrow>
     \<exists>m'. person_loop big today Date_new ps m = Inr m' \<and>
       list_all (\<lambda>ka. list_all (\<lambda>a. normalizeName (c_person a) \<noteq> None) (snd ka)) m'"
proof (induction ps arbitrary: m)
  case Nil
  then show ?case by simp
next
  case (Cons it ps)
  from Cons.prems(1) have w: "well_shaped it" and ws: "list_all well_shaped ps" by simp_all
  show ?case
  proof (cases it)
    case PersonNull
    with w show ?thesis by simp
  next
    case PersonPrim
    with Cons.IH[OF ws Cons.prems(2)] show ?thesis by simp
  next
    case (PersonObject p)
    show ?thesis
    proof (cases "p_terms p")
      case TermsFalsy
      with PersonObject Cons.IH[OF ws Cons.prems(2)] show ?thesis by simp
    next
      case TermsNotArray
      with PersonObject w show ?thesis by simp
    next
      case (TermsArray items)
      from w PersonObject have "well_shaped (PersonObject p)" by simp
      from well_shaped_object[OF this TermsArray] obtain ts
        where ts: "filter_rep items = Inr ts" and r: "list_all readable_term ts"
          and nm: "ts = [] \<or> normalizeName p \<noteq> None" by blast
      from term_loop_ok[OF r] obtain m2
        where m2: "term_loop big today Date_new p ts m = Inr m2" by blast
      have inv: "list_all (\<lambda>ka. list_all (\<lambda>a. normalizeName (c_person a) \<noteq> None) (snd ka)) m2"
      proof (cases "ts = []")
        case True
        with m2 Cons.prems(2) show ?thesis by simp
      next
        case False
        with nm have "normalizeName p \<noteq> None" by simp
        from term_loop_named[OF m2 this Cons.prems(2)] show ?thesis .
      qed
      from Cons.IH[OF ws inv] PersonObject TermsArray ts m2 show ?thesis by simp
    qed
  qed
qed

text \<open>The second loop.\<close>

lemma reduce_step_cases: "reduce_step best cur = best \<or> reduce_step best cur = cur"
  by (simp add: reduce_step_def)

lemma foldl_reduce_in: "foldl reduce_step b xs \<in> set (b # xs)"
proof (induction xs arbitrary: b)
  case Nil
  then show ?case by simp
next
  case (Cons x xs)
  from Cons[of "reduce_step b x"] reduce_step_cases[of b x] show ?case by auto
qed

lemma chosen_Some: "arr \<noteq> [] \<Longrightarrow> \<exists>c. chosen arr = Some c \<and> c \<in> set arr"
proof (cases "find isCurrent arr")
  case None
  assume "arr \<noteq> []"
  then obtain a0 rest where arr: "arr = a0 # rest" by (cases arr) auto
  have "foldl reduce_step a0 arr \<in> set (a0 # arr)" by (rule foldl_reduce_in)
  with None arr show ?thesis by (auto simp: chosen_def)
next
  case (Some c)
  then have "c \<in> set arr" by (auto simp: find_Some_iff)
  with Some show ?thesis by (simp add: chosen_def)
qed

lemma make_entry_None: "(make_entry c = None) = (normalizeName (c_person c) = None)"
  by (cases "normalizeName (c_person c)") (simp_all add: make_entry_def Let_def)

lemma make_entry_Some:
  "make_entry c = Some e \<Longrightarrow> raw_person e = c_person c \<and> raw_term e = c_term c"
  by (cases "normalizeName (c_person c)") (auto simp: make_entry_def Let_def)

lemma entry_loop_step:
  assumes "entry_loop ((k, arr) # m) = Inr idx"
  shows "\<exists>c e out. chosen arr = Some c \<and> make_entry c = Some e \<and> entry_loop m = Inr out \<and>
     idx = (k, e) # out"
proof (cases "chosen arr")
  case None
  with assms show ?thesis by simp
next
  case (Some c)
  note c = Some
  show ?thesis
  proof (cases "make_entry c")
    case None
    with c assms show ?thesis by simp
  next
    case (Some e)
    with c assms show ?thesis by (cases "entry_loop m") simp_all
  qed
qed

lemma entry_loop_ok:
  "list_all (\<lambda>ka. snd ka \<noteq> []) m \<Longrightarrow>
   list_all (\<lambda>ka. list_all (\<lambda>a. normalizeName (c_person a) \<noteq> None) (snd ka)) m \<Longrightarrow>
     \<exists>idx. entry_loop m = Inr idx"
proof (induction m)
  case Nil
  then show ?case by simp
next
  case (Cons ka m)
  obtain k arr where ka: "ka = (k, arr)" by (cases ka)
  from Cons.prems ka have ne: "arr \<noteq> []"
    and nm: "list_all (\<lambda>a. normalizeName (c_person a) \<noteq> None) arr" by simp_all
  from chosen_Some[OF ne] obtain c where c: "chosen arr = Some c" and cin: "c \<in> set arr" by blast
  from nm cin have "normalizeName (c_person c) \<noteq> None" by (simp add: list_all_iff)
  then obtain e where e: "make_entry c = Some e" using make_entry_None[of c] by auto
  from Cons.prems have "list_all (\<lambda>ka. snd ka \<noteq> []) m"
    and "list_all (\<lambda>ka. list_all (\<lambda>a. normalizeName (c_person a) \<noteq> None) (snd ka)) m" by simp_all
  from Cons.IH[OF this] obtain out where "entry_loop m = Inr out" by blast
  with ka c e show ?case by simp
qed

lemma entry_loop_lookup:
  "entry_loop m = Inr idx \<Longrightarrow> map_of m key = Some arr \<Longrightarrow>
     \<exists>c e. chosen arr = Some c \<and> make_entry c = Some e \<and> map_of idx key = Some e"
proof (induction m arbitrary: idx)
  case Nil
  then show ?case by simp
next
  case (Cons ka m)
  obtain k a where ka: "ka = (k, a)" by (cases ka)
  from Cons.prems(1) ka have "entry_loop ((k, a) # m) = Inr idx" by simp
  from entry_loop_step[OF this] obtain c e out where c: "chosen a = Some c"
    and e: "make_entry c = Some e" and out: "entry_loop m = Inr out"
    and idx: "idx = (k, e) # out" by blast
  show ?case
  proof (cases "k = key")
    case True
    with Cons.prems(2) ka have "a = arr" by simp
    with c e idx True show ?thesis by simp
  next
    case False
    with Cons.prems(2) ka have "map_of m key = Some arr" by simp
    from Cons.IH[OF out this] False idx show ?thesis by simp
  qed
qed

lemma entry_loop_keys: "entry_loop m = Inr idx \<Longrightarrow> map fst idx = map fst m"
proof (induction m arbitrary: idx)
  case Nil
  then show ?case by simp
next
  case (Cons ka m)
  obtain k a where ka: "ka = (k, a)" by (cases ka)
  from Cons.prems ka have "entry_loop ((k, a) # m) = Inr idx" by simp
  from entry_loop_step[OF this] obtain e out where out: "entry_loop m = Inr out"
    and idx: "idx = (k, e) # out" by blast
  from Cons.IH[OF out] idx ka show ?case by simp
qed

lemma map_of_nonempty:
  "list_all (\<lambda>ka. snd ka \<noteq> []) m \<Longrightarrow> map_of m key = Some arr \<Longrightarrow> arr \<noteq> []"
  by (induction m) (auto split: if_splits)

lemma cands_at_Some:
  "list_all (\<lambda>ka. snd ka \<noteq> []) m \<Longrightarrow> cands_at m key \<noteq> [] \<Longrightarrow> map_of m key = Some (cands_at m key)"
  by (cases "map_of m key") (simp_all add: cands_at_def)

lemma candidates_roster:
  "candidates big today Date_new (Inr (DocsArray ps)) = person_loop big today Date_new ps []"
  by (simp add: candidates_def)

lemma build_roster:
  "candidates big today Date_new (Inr (DocsArray ps)) = Inr m \<Longrightarrow>
     build big today Date_new (Inr (DocsArray ps)) = entry_loop m"
  by (simp add: build_def)

lemma build_candidates:
  "build big today Date_new (Inr (DocsArray ps)) = Inr idx \<Longrightarrow>
     \<exists>m. person_loop big today Date_new ps [] = Inr m \<and> entry_loop m = Inr idx"
  by (cases "person_loop big today Date_new ps []") (simp_all add: build_def candidates_def)

section \<open>The choice among the candidates of a key\<close>

lemma reduce_step_self: "reduce_step a a = a"
  by (simp add: reduce_step_def)

lemma chosen_no_current:
  "find isCurrent (a0 # rest) = None \<Longrightarrow> chosen (a0 # rest) = Some (foldl reduce_step a0 rest)"
  by (simp add: chosen_def reduce_step_self)

lemma chosen_current:
  "\<exists>a \<in> set arr. isCurrent a \<Longrightarrow> \<exists>c. chosen arr = Some c \<and> find isCurrent arr = Some c \<and> isCurrent c"
proof -
  assume "\<exists>a \<in> set arr. isCurrent a"
  then obtain c where c: "find isCurrent arr = Some c" by (cases "find isCurrent arr") (auto simp: find_None_iff)
  then have "isCurrent c" by (auto simp: find_Some_iff)
  with c show ?thesis by (simp add: chosen_def)
qed

lemma js_le_Num: "c_start a \<noteq> NaN \<Longrightarrow> \<exists>n. c_start a = Num n"
  by (cases "c_start a") auto

lemma foldl_reduce_max:
  assumes "\<forall>a \<in> set (b # xs). c_start a \<noteq> NaN"
  shows "\<exists>i < length (b # xs). foldl reduce_step b xs = (b # xs) ! i \<and>
     (\<forall>j < length (b # xs). js_le (c_start ((b # xs) ! j)) (c_start ((b # xs) ! i))) \<and>
     (\<forall>j < i. js_gt (c_start ((b # xs) ! i)) (c_start ((b # xs) ! j)))"
  using assms
proof (induction xs rule: rev_induct)
  case Nil
  from Nil obtain n where "c_start b = Num n" using js_le_Num by auto
  then show ?case by simp
next
  case (snoc x xs)
  let ?l = "b # xs"
  from snoc.prems have "\<forall>a \<in> set ?l. c_start a \<noteq> NaN" by simp
  with snoc.IH obtain i where i: "i < length ?l" and r: "foldl reduce_step b xs = ?l ! i"
    and le: "\<forall>j < length ?l. js_le (c_start (?l ! j)) (c_start (?l ! i))"
    and gt: "\<forall>j < i. js_gt (c_start (?l ! i)) (c_start (?l ! j))" by blast
  from snoc.prems obtain vx where vx: "c_start x = Num vx" using js_le_Num by auto
  from snoc.prems i obtain vr where vr: "c_start (?l ! i) = Num vr"
    using js_le_Num[of "?l ! i"] nth_mem[of i ?l] by auto
  have app: "b # xs @ [x] = ?l @ [x]" by simp
  have nth_old: "(?l @ [x]) ! j = ?l ! j" if "j < length ?l" for j
    using that by (simp only: nth_append if_True)
  have nth_new: "(?l @ [x]) ! length ?l = x" by (simp only: nth_append_length)
  have step: "foldl reduce_step b (xs @ [x]) = reduce_step (?l ! i) x" using r by simp
  show ?case
  proof (cases "vx > vr")
    case True
    then have res: "foldl reduce_step b (xs @ [x]) = x" using step vx vr by (simp add: reduce_step_def)
    have old_lt: "js_gt (Num vx) (c_start (?l ! j))" if "j < length ?l" for j
    proof -
      from that le have l: "js_le (c_start (?l ! j)) (Num vr)" using vr by auto
      then obtain vj where "c_start (?l ! j) = Num vj" by (cases "c_start (?l ! j)") auto
      with l True show ?thesis by simp
    qed
    have all_le: "js_le (c_start ((?l @ [x]) ! j)) (Num vx)" if "j < length (?l @ [x])" for j
    proof (cases "j < length ?l")
      case True
      from old_lt[OF True] obtain vj where "c_start (?l ! j) = Num vj" "vj < vx"
        by (cases "c_start (?l ! j)") auto
      then show ?thesis using nth_old[OF True] by simp
    next
      case False
      with that have "j = length ?l" by simp
      then show ?thesis using nth_new vx by simp
    qed
    have "length ?l < length (?l @ [x]) \<and> foldl reduce_step b (xs @ [x]) = (?l @ [x]) ! length ?l \<and>
      (\<forall>j < length (?l @ [x]). js_le (c_start ((?l @ [x]) ! j)) (c_start ((?l @ [x]) ! length ?l))) \<and>
      (\<forall>j < length ?l. js_gt (c_start ((?l @ [x]) ! length ?l)) (c_start ((?l @ [x]) ! j)))"
      using res all_le old_lt nth_old vx by (simp only: nth_new) simp
    then show ?thesis unfolding app by blast
  next
    case False
    then have res: "foldl reduce_step b (xs @ [x]) = ?l ! i" using step vx vr by (simp add: reduce_step_def)
    have all_le: "js_le (c_start ((?l @ [x]) ! j)) (c_start (?l ! i))" if "j < length (?l @ [x])" for j
    proof (cases "j < length ?l")
      case True
      then show ?thesis using le nth_old[OF True] by simp
    next
      case F: False
      with that have "j = length ?l" by simp
      then show ?thesis using nth_new vx vr False by simp
    qed
    have lt: "js_gt (c_start (?l ! i)) (c_start ((?l @ [x]) ! j))" if "j < i" for j
    proof -
      from that i have "j < length ?l" by simp
      then show ?thesis using gt that nth_old by simp
    qed
    have "i < length (?l @ [x]) \<and> foldl reduce_step b (xs @ [x]) = (?l @ [x]) ! i \<and>
      (\<forall>j < length (?l @ [x]). js_le (c_start ((?l @ [x]) ! j)) (c_start ((?l @ [x]) ! i))) \<and>
      (\<forall>j < i. js_gt (c_start ((?l @ [x]) ! i)) (c_start ((?l @ [x]) ! j)))"
      using i res all_le lt nth_old[OF i] by simp
    then show ?thesis unfolding app by blast
  qed
qed

lemma chosen_greatest_start:
  assumes "arr \<noteq> []" and "\<forall>a \<in> set arr. \<not> isCurrent a \<and> c_start a \<noteq> NaN"
  shows "\<exists>i < length arr. chosen arr = Some (arr ! i) \<and>
     (\<forall>j < length arr. js_le (c_start (arr ! j)) (c_start (arr ! i))) \<and>
     (\<forall>j < i. js_gt (c_start (arr ! i)) (c_start (arr ! j)))"
proof -
  from assms(1) obtain a0 rest where arr: "arr = a0 # rest" by (cases arr) auto
  from assms(2) have "find isCurrent arr = None" by (simp add: find_None_iff)
  then have "chosen arr = Some (foldl reduce_step a0 rest)" unfolding arr by (rule chosen_no_current)
  moreover from assms(2) have "\<forall>a \<in> set (a0 # rest). c_start a \<noteq> NaN" unfolding arr by simp
  ultimately show ?thesis using foldl_reduce_max[of a0 rest] unfolding arr by auto
qed

text \<open>The choice as a position in the array.\<close>

lemma chosen_index:
  assumes "arr \<noteq> []"
  shows "\<exists>i < length arr. chosen arr = Some (arr ! i) \<and>
     ((\<exists>j < length arr. isCurrent (arr ! j)) \<longrightarrow>
        isCurrent (arr ! i) \<and> (\<forall>j < i. \<not> isCurrent (arr ! j))) \<and>
     ((\<forall>j < length arr. \<not> isCurrent (arr ! j) \<and> c_start (arr ! j) \<noteq> NaN) \<longrightarrow>
        (\<forall>j < length arr. js_le (c_start (arr ! j)) (c_start (arr ! i))) \<and>
        (\<forall>j < i. js_gt (c_start (arr ! i)) (c_start (arr ! j))))"
proof (cases "\<exists>j < length arr. isCurrent (arr ! j)")
  case True
  then obtain j where j: "j < length arr" "isCurrent (arr ! j)" by blast
  then have "\<exists>a \<in> set arr. isCurrent a" using nth_mem by blast
  then obtain c where c: "find isCurrent arr = Some c"
    by (cases "find isCurrent arr") (auto simp: find_None_iff)
  then obtain i where i: "i < length arr" and ci: "isCurrent (arr ! i)" and eq: "c = arr ! i"
    and first: "\<forall>j < i. \<not> isCurrent (arr ! j)" unfolding find_Some_iff by blast
  from c eq have ch: "chosen arr = Some (arr ! i)" by (simp add: chosen_def)
  have no: "\<not> (\<forall>j < length arr. \<not> isCurrent (arr ! j) \<and> c_start (arr ! j) \<noteq> NaN)"
    using j by blast
  show ?thesis
  proof (intro exI[of _ i] conjI impI)
    show "i < length arr" by (rule i)
    show "chosen arr = Some (arr ! i)" by (rule ch)
    show "isCurrent (arr ! i)" by (rule ci)
    show "\<forall>j < i. \<not> isCurrent (arr ! j)" by (rule first)
  next
    assume "\<forall>j < length arr. \<not> isCurrent (arr ! j) \<and> c_start (arr ! j) \<noteq> NaN"
    with no show "\<forall>j < length arr. js_le (c_start (arr ! j)) (c_start (arr ! i))" by blast
  next
    assume "\<forall>j < length arr. \<not> isCurrent (arr ! j) \<and> c_start (arr ! j) \<noteq> NaN"
    with no show "\<forall>j < i. js_gt (c_start (arr ! i)) (c_start (arr ! j))" by blast
  qed
next
  case False
  note none = False
  show ?thesis
  proof (cases "\<forall>j < length arr. c_start (arr ! j) \<noteq> NaN")
    case True
    have "\<forall>a \<in> set arr. \<not> isCurrent a \<and> c_start a \<noteq> NaN"
    proof
      fix a assume "a \<in> set arr"
      then obtain j where "j < length arr" "a = arr ! j" by (auto simp: in_set_conv_nth)
      with none True show "\<not> isCurrent a \<and> c_start a \<noteq> NaN" by blast
    qed
    from chosen_greatest_start[OF assms this] obtain i where i: "i < length arr"
      and ch: "chosen arr = Some (arr ! i)"
      and le: "\<forall>j < length arr. js_le (c_start (arr ! j)) (c_start (arr ! i))"
      and gt: "\<forall>j < i. js_gt (c_start (arr ! i)) (c_start (arr ! j))" by blast
    show ?thesis
    proof (intro exI[of _ i] conjI impI)
      show "i < length arr" by (rule i)
      show "chosen arr = Some (arr ! i)" by (rule ch)
      show "\<forall>j < length arr. js_le (c_start (arr ! j)) (c_start (arr ! i))" by (rule le)
      show "\<forall>j < i. js_gt (c_start (arr ! i)) (c_start (arr ! j))" by (rule gt)
    next
      assume "\<exists>j < length arr. isCurrent (arr ! j)"
      with none show "isCurrent (arr ! i)" by blast
    next
      assume "\<exists>j < length arr. isCurrent (arr ! j)"
      with none show "\<forall>j < i. \<not> isCurrent (arr ! j)" by blast
    qed
  next
    case False
    from chosen_Some[OF assms] obtain c where c: "chosen arr = Some c" and cin: "c \<in> set arr"
      by blast
    from cin obtain i where i: "i < length arr" and eq: "c = arr ! i"
      by (auto simp: in_set_conv_nth)
    have no: "\<not> (\<forall>j < length arr. \<not> isCurrent (arr ! j) \<and> c_start (arr ! j) \<noteq> NaN)"
      using False by blast
    show ?thesis
    proof (intro exI[of _ i] conjI impI)
      show "i < length arr" by (rule i)
      show "chosen arr = Some (arr ! i)" using c eq by simp
    next
      assume "\<exists>j < length arr. isCurrent (arr ! j)"
      with none show "isCurrent (arr ! i)" by blast
    next
      assume "\<exists>j < length arr. isCurrent (arr ! j)"
      with none show "\<forall>j < i. \<not> isCurrent (arr ! j)" by blast
    next
      assume "\<forall>j < length arr. \<not> isCurrent (arr ! j) \<and> c_start (arr ! j) \<noteq> NaN"
      with no show "\<forall>j < length arr. js_le (c_start (arr ! j)) (c_start (arr ! i))" by blast
    next
      assume "\<forall>j < length arr. \<not> isCurrent (arr ! j) \<and> c_start (arr ! j) \<noteq> NaN"
      with no show "\<forall>j < i. js_gt (c_start (arr ! i)) (c_start (arr ! j))" by blast
    qed
  qed
qed

text \<open>The candidates under a key are the candidates of the House terms of the roster that
  have this key, in the order of the roster.\<close>

lemma roster_cands:
  assumes "person_loop big today Date_new ps [] = Inr m"
  shows "map Some (cands_at m key) =
     map (\<lambda>pt. term_candidate today Date_new (fst pt) (snd pt)) (terms_of_key big ps key)"
  using person_loop_cands[OF assms, of key] by (simp add: cands_at_def terms_of_key_def)

lemma map_Some_nth:
  assumes "map Some arr = map f pts"
  shows "length arr = length pts \<and> (\<forall>i < length pts. f (pts ! i) = Some (arr ! i))"
proof -
  from assms have "length (map Some arr) = length (map f pts)" by simp
  then have len: "length arr = length pts" by simp
  have "f (pts ! i) = Some (arr ! i)" if "i < length pts" for i
  proof -
    from that have "f (pts ! i) = map f pts ! i" by simp
    also have "\<dots> = map Some arr ! i" using assms by simp
    also have "\<dots> = Some (arr ! i)" using that len by simp
    finally show ?thesis .
  qed
  with len show ?thesis by blast
qed

lemma roster_cand_nth:
  assumes "person_loop big today Date_new ps [] = Inr m" and "i < length (terms_of_key big ps key)"
  shows "length (cands_at m key) = length (terms_of_key big ps key) \<and>
     c_person (cands_at m key ! i) = fst (terms_of_key big ps key ! i) \<and>
     c_term (cands_at m key ! i) = snd (terms_of_key big ps key ! i) \<and>
     isCurrent (cands_at m key ! i) = current_term today Date_new (snd (terms_of_key big ps key ! i)) \<and>
     c_start (cands_at m key ! i) = start_epoch Date_new (snd (terms_of_key big ps key ! i))"
proof -
  let ?pts = "terms_of_key big ps key"
  from map_Some_nth[OF roster_cands[OF assms(1), of key]]
  have len: "length (cands_at m key) = length ?pts"
    and nth: "\<forall>i < length ?pts. term_candidate today Date_new (fst (?pts ! i)) (snd (?pts ! i)) =
        Some (cands_at m key ! i)" by blast+
  from nth assms(2)
  have "term_candidate today Date_new (fst (?pts ! i)) (snd (?pts ! i)) = Some (cands_at m key ! i)"
    by blast
  from term_candidate_Some[OF this] len show ?thesis by blast
qed

section \<open>Claims on the index build\<close>

lemmas sample_defs = jane_def blank_term_def term_CA12_def term_no_state_def term_bad_start_def
  term_1969_def term_1970_def term_1970_long_def term_ended_2021_def term_since_1969_def term_no_string_def
  Date_new_sample_def today_sample_def cand_sample_def

lemmas eval_defs = term_key_def normalize_district_def districtRaw1_def match_digits_def
  is_digit_def String_parseInt_def parseInt_run_def render_run_def js_isspace_def
  digits_value_def digit_value_def show_nat.simps
  term_candidate_def date_field_def new_Date_def current_term_def start_epoch_def
  candidates_def build_def chosen_def reduce_step_def
  make_entry_def normalizeName_def filter_join_def js_or_def Let_def
  toLowerCase_def lower_char_def upper_chars_def lower_chars_def

lemma well_shaped_readable:
  assumes "well_shaped it" and "(p, t) \<in> set (rep_terms_of it)"
  shows "readable_term t"
proof (cases it)
  case (PersonObject q)
  show ?thesis
  proof (cases "p_terms q")
    case (TermsArray items)
    with assms(1) PersonObject
    have "list_all (\<lambda>pt. readable_term (snd pt)) (rep_terms_of (PersonObject q))" by simp
    with assms(2) PersonObject show ?thesis by (auto simp: list_all_iff)
  next
    case TermsFalsy
    with assms(2) PersonObject show ?thesis by simp
  next
    case TermsNotArray
    with assms(2) PersonObject show ?thesis by simp
  qed
next
  case PersonNull
  with assms(2) show ?thesis by simp
next
  case PersonPrim
  with assms(2) show ?thesis by simp
qed

lemma cand_in_cands_at: "cand_in m key c = (c \<in> set (cands_at m key))"
  by (cases "map_of m key") (simp_all add: cand_in_def cands_at_def)

lemma roster_term_filed:
  assumes pl: "person_loop big today Date_new ps [] = Inr m"
    and it: "it \<in> set ps" and pt: "(p, t) \<in> set (rep_terms_of it)"
    and key: "term_key big t = Some key" and c: "term_candidate today Date_new p t = Some c"
  shows "c \<in> set (cands_at m key)"
proof -
  from it pt have "(p, t) \<in> set (all_rep_terms ps)" by (auto simp: all_rep_terms_def)
  with key have "(p, t) \<in> set (terms_of_key big ps key)" by (simp add: terms_of_key_def)
  then have "term_candidate today Date_new (fst (p, t)) (snd (p, t)) \<in>
      set (map (\<lambda>pt. term_candidate today Date_new (fst pt) (snd pt)) (terms_of_key big ps key))"
    by (simp only: set_map) (rule imageI)
  then have "Some c \<in> set (map Some (cands_at m key))"
    using c roster_cands[OF pl, of key] by simp
  then show ?thesis by auto
qed

lemma unparseable_not_current:
  "(truthy (t_start t) \<and> Date_new (t_start t) = NaN) \<or>
   (truthy (t_end t) \<and> Date_new (t_end t) = NaN) \<Longrightarrow> \<not> current_term today Date_new t"
  by (auto simp: current_term_def)

text \<open>
  Claim C1, as amended. On a roster that can be read (no \<^verbatim>\<open>null\<close> person, no \<^verbatim>\<open>null\<close> term,
  no \<^verbatim>\<open>terms\<close> value that is not an array, and no state, district, start, end or name part
  of a person with House terms that cannot be converted to a string) the build returns an
  index. No term is skipped: every House term, with or without a state and whatever its
  dates, is a candidate under the key made of its state rendered as a string (\<open>undefined\<close>
  for a missing state) and its normalized district, and the index has an entry for that
  key. A term whose start or end date is given and unparseable is a candidate that is not
  current.
\<close>

theorem C1_build_never_aborts:
  assumes "list_all well_shaped ps"
  shows "\<exists>m idx. candidates big today Date_new (Inr (DocsArray ps)) = Inr m \<and>
     build big today Date_new (Inr (DocsArray ps)) = Inr idx \<and>
     (\<forall>it p t. it \<in> set ps \<and> (p, t) \<in> set (rep_terms_of it) \<longrightarrow>
        (\<exists>key c. term_key big t = Some key \<and> term_candidate today Date_new p t = Some c \<and>
           cand_in m key c \<and> map_of idx key \<noteq> None \<and>
           ((truthy (t_start t) \<and> Date_new (t_start t) = NaN) \<or>
            (truthy (t_end t) \<and> Date_new (t_end t) = NaN) \<longrightarrow> \<not> isCurrent c)))"
proof -
  have "list_all (\<lambda>ka. list_all (\<lambda>a. normalizeName (c_person a) \<noteq> None) (snd ka))
      ([] :: cand_map)" by simp
  from person_loop_ok[OF assms this] obtain m
    where pl: "person_loop big today Date_new ps [] = Inr m"
      and named: "list_all (\<lambda>ka. list_all (\<lambda>a. normalizeName (c_person a) \<noteq> None) (snd ka)) m"
    by blast
  have ne: "list_all (\<lambda>ka. snd ka \<noteq> []) m"
    using person_loop_nonempty[OF pl] by simp
  from pl have m: "candidates big today Date_new (Inr (DocsArray ps)) = Inr m"
    by (simp add: candidates_roster)
  from entry_loop_ok[OF ne named] obtain idx where el: "entry_loop m = Inr idx" by blast
  with m have idx: "build big today Date_new (Inr (DocsArray ps)) = Inr idx"
    by (simp add: build_roster)
  have each: "\<exists>key c. term_key big t = Some key \<and> term_candidate today Date_new p t = Some c \<and>
           cand_in m key c \<and> map_of idx key \<noteq> None \<and>
           ((truthy (t_start t) \<and> Date_new (t_start t) = NaN) \<or>
            (truthy (t_end t) \<and> Date_new (t_end t) = NaN) \<longrightarrow> \<not> isCurrent c)"
    if it: "it \<in> set ps" and pt: "(p, t) \<in> set (rep_terms_of it)" for it p t
  proof -
    from assms it have "well_shaped it" by (simp add: list_all_iff)
    from well_shaped_readable[OF this pt] have r: "readable_term t" .
    from r obtain key where key: "term_key big t = Some key" using readable_term_key by blast
    from r obtain c where c: "term_candidate today Date_new p t = Some c"
      using readable_term_candidate by blast
    from roster_term_filed[OF pl it pt key c] have cin: "c \<in> set (cands_at m key)" .
    then have ci: "cand_in m key c" by (simp add: cand_in_cands_at)
    from cin have "cands_at m key \<noteq> []" by auto
    from cands_at_Some[OF ne this] have "map_of m key = Some (cands_at m key)" .
    from entry_loop_lookup[OF el this] have look: "map_of idx key \<noteq> None" by auto
    from term_candidate_Some[OF c] have "isCurrent c = current_term today Date_new t" by blast
    then have nc: "(truthy (t_start t) \<and> Date_new (t_start t) = NaN) \<or>
            (truthy (t_end t) \<and> Date_new (t_end t) = NaN) \<longrightarrow> \<not> isCurrent c"
      using unparseable_not_current[of t Date_new today] by blast
    from key c ci look nc show ?thesis by blast
  qed
  from m idx each show ?thesis by blast
qed

text \<open>Claim C1, as amended, on a roster of one person with a term without a state and a term
  with an unparseable start: both keys are in the index.\<close>

theorem C1_witness:
  "list_all well_shaped roster_malformed \<and>
   (\<exists>idx. build big_sample today_sample Date_new_sample (Inr (DocsArray roster_malformed)) = Inr idx \<and>
      map_of idx ''undefined-5'' \<noteq> None \<and> map_of idx ''CA-12'' \<noteq> None) \<and>
   term_candidate today_sample Date_new_sample
       (jane [TermObject term_no_state, TermObject term_bad_start]) term_bad_start =
     Some (cand_sample [TermObject term_no_state, TermObject term_bad_start] term_bad_start) \<and>
   \<not> isCurrent (cand_sample [TermObject term_no_state, TermObject term_bad_start] term_bad_start)"
proof -
  let ?items = "[TermObject term_no_state, TermObject term_bad_start]"
  let ?p = "jane ?items"
  have ws: "list_all well_shaped roster_malformed"
    by (simp add: roster_malformed_def sample_defs readable_term_def normalizeName_def
        filter_join_def)
  have mem: "PersonObject ?p \<in> set roster_malformed" by (simp add: roster_malformed_def)
  have t1: "(?p, term_no_state) \<in> set (rep_terms_of (PersonObject ?p))"
    by (simp add: sample_defs)
  have t2: "(?p, term_bad_start) \<in> set (rep_terms_of (PersonObject ?p))"
    by (simp add: sample_defs)
  have k1: "term_key big_sample term_no_state = Some ''undefined-5''"
    by (simp add: sample_defs eval_defs)
  have k2: "term_key big_sample term_bad_start = Some ''CA-12''"
    by (simp add: sample_defs eval_defs)
  have c2: "term_candidate today_sample Date_new_sample ?p term_bad_start =
      Some (cand_sample ?items term_bad_start)"
    by (simp add: sample_defs eval_defs)
  have bad: "truthy (t_start term_bad_start) \<and> Date_new_sample (t_start term_bad_start) = NaN"
    by (simp add: sample_defs)
  from C1_build_never_aborts [OF ws, of big_sample today_sample Date_new_sample]
  obtain m idx where idx: "build big_sample today_sample Date_new_sample (Inr (DocsArray roster_malformed)) = Inr idx"
    and each: "\<forall>it p t. it \<in> set roster_malformed \<and> (p, t) \<in> set (rep_terms_of it) \<longrightarrow>
        (\<exists>key c. term_key big_sample t = Some key \<and>
           term_candidate today_sample Date_new_sample p t = Some c \<and>
           cand_in m key c \<and> map_of idx key \<noteq> None \<and>
           ((truthy (t_start t) \<and> Date_new_sample (t_start t) = NaN) \<or>
            (truthy (t_end t) \<and> Date_new_sample (t_end t) = NaN) \<longrightarrow> \<not> isCurrent c))"
    by blast
  from each mem t1 obtain key1 where "term_key big_sample term_no_state = Some key1"
    and "map_of idx key1 \<noteq> None" by blast
  with k1 have e1: "map_of idx ''undefined-5'' \<noteq> None" by simp
  from each mem t2 obtain key2 c where "term_key big_sample term_bad_start = Some key2"
    and "map_of idx key2 \<noteq> None"
    and "term_candidate today_sample Date_new_sample ?p term_bad_start = Some c"
    and nc: "(truthy (t_start term_bad_start) \<and> Date_new_sample (t_start term_bad_start) = NaN) \<or>
            (truthy (t_end term_bad_start) \<and> Date_new_sample (t_end term_bad_start) = NaN) \<longrightarrow>
              \<not> isCurrent c" by blast
  with k2 c2 have e2: "map_of idx ''CA-12'' \<noteq> None"
    and ceq: "c = cand_sample ?items term_bad_start" by simp_all
  from nc bad ceq have "\<not> isCurrent (cand_sample ?items term_bad_start)" by blast
  with ws idx e1 e2 c2 show ?thesis by blast
qed

text \<open>Claim C1 as stated fails: the term without a state is not skipped, it gives the
  index its only entry, under the key \<open>undefined-5\<close>; the term with the unparseable start
  is not skipped either, it gives the index its only entry, under \<open>CA-12\<close>.\<close>

theorem C1_counterexample:
  "t_state term_no_state = JUndefined \<and>
   (\<exists>e. build big_sample today_sample Date_new_sample
           (Inr (DocsArray [PersonObject (jane [TermObject term_no_state])])) =
         Inr [(''undefined-5'', e)] \<and> raw_term e = term_no_state) \<and>
   Date_new_sample (t_start term_bad_start) = NaN \<and>
   (\<exists>e. build big_sample today_sample Date_new_sample
           (Inr (DocsArray [PersonObject (jane [TermObject term_bad_start])])) =
         Inr [(''CA-12'', e)] \<and> raw_term e = term_bad_start)"
  by (simp add: sample_defs eval_defs)

text \<open>The build does abort on a House term with a field that cannot be converted to a
  string: \<^verbatim>\<open>String(districtRaw)\<close> on line 49 throws on the district \<^verbatim>\<open>{toString: 1}\<close>.\<close>

lemma build_aborts_on_unconvertible_district:
  "\<not> list_all well_shaped roster_no_string \<and>
   build big today Date_new (Inr (DocsArray roster_no_string)) = Inl TypeError"
  by (simp add: roster_no_string_def term_no_string_def jane_def blank_term_def
      readable_term_def build_def candidates_def term_key_def normalize_district_def
      districtRaw1_def)

text \<open>
  Claim C3, as amended. Take a key and the House terms of the roster that are filed under
  it, in the order of the roster, and let there be at least one. When the build
  completes, the index entry of the key is made from one of these terms, the selected
  one. If some term is current by the date rule (start absent or not after the
  evaluation instant, and end absent or not before it), the selected term is the first
  current one; so when exactly one term is current it is that one, however many others
  share the key and whatever their start dates. If no term is current and every start
  epoch is a number (no start date is given and unparseable), the selected term has the
  greatest start epoch, and every term before it has a strictly smaller one: ties go to
  the term met first.
\<close>

theorem C3_selection:
  assumes "build big today Date_new (Inr (DocsArray ps)) = Inr idx"
    and "pts = terms_of_key big ps key" and "pts \<noteq> []"
  shows "\<exists>i e. i < length pts \<and> map_of idx key = Some e \<and>
     raw_person e = fst (pts ! i) \<and> raw_term e = snd (pts ! i) \<and>
     ((\<exists>j < length pts. current_term today Date_new (snd (pts ! j))) \<longrightarrow>
        current_term today Date_new (snd (pts ! i)) \<and>
        (\<forall>j < i. \<not> current_term today Date_new (snd (pts ! j))) \<and>
        (\<forall>j < length pts. current_term today Date_new (snd (pts ! j)) \<and>
           (\<forall>l < length pts. current_term today Date_new (snd (pts ! l)) \<longrightarrow> l = j) \<longrightarrow> i = j)) \<and>
     ((\<forall>j < length pts. \<not> current_term today Date_new (snd (pts ! j)) \<and>
                         start_epoch Date_new (snd (pts ! j)) \<noteq> NaN) \<longrightarrow>
        (\<forall>j < length pts. js_le (start_epoch Date_new (snd (pts ! j)))
                                 (start_epoch Date_new (snd (pts ! i)))) \<and>
        (\<forall>j < i. js_gt (start_epoch Date_new (snd (pts ! i)))
                        (start_epoch Date_new (snd (pts ! j)))))"
proof -
  from build_candidates[OF assms(1)] obtain m
    where pl: "person_loop big today Date_new ps [] = Inr m" and el: "entry_loop m = Inr idx"
    by blast
  let ?arr = "cands_at m key"
  have nth: "length ?arr = length pts \<and>
     c_person (?arr ! j) = fst (pts ! j) \<and> c_term (?arr ! j) = snd (pts ! j) \<and>
     isCurrent (?arr ! j) = current_term today Date_new (snd (pts ! j)) \<and>
     c_start (?arr ! j) = start_epoch Date_new (snd (pts ! j))" if "j < length pts" for j
    using roster_cand_nth[OF pl, of j key] that unfolding assms(2) by blast
  from assms(3) have "0 < length pts" by simp
  from nth[OF this] have len: "length ?arr = length pts" by blast
  with assms(3) have arr_ne: "?arr \<noteq> []" by auto
  have cur: "isCurrent (?arr ! j) = current_term today Date_new (snd (pts ! j))"
    if "j < length pts" for j using nth[OF that] by blast
  have st: "c_start (?arr ! j) = start_epoch Date_new (snd (pts ! j))"
    if "j < length pts" for j using nth[OF that] by blast
  have ne: "list_all (\<lambda>ka. snd ka \<noteq> []) m" using person_loop_nonempty[OF pl] by simp
  from cands_at_Some[OF ne arr_ne] have look: "map_of m key = Some ?arr" .
  from entry_loop_lookup[OF el look] obtain c e where c: "chosen ?arr = Some c"
    and e: "make_entry c = Some e" and ie: "map_of idx key = Some e" by blast
  from chosen_index[OF arr_ne] obtain i where i: "i < length ?arr"
    and ci: "chosen ?arr = Some (?arr ! i)"
    and first: "(\<exists>j < length ?arr. isCurrent (?arr ! j)) \<longrightarrow>
        isCurrent (?arr ! i) \<and> (\<forall>j < i. \<not> isCurrent (?arr ! j))"
    and great: "(\<forall>j < length ?arr. \<not> isCurrent (?arr ! j) \<and> c_start (?arr ! j) \<noteq> NaN) \<longrightarrow>
        (\<forall>j < length ?arr. js_le (c_start (?arr ! j)) (c_start (?arr ! i))) \<and>
        (\<forall>j < i. js_gt (c_start (?arr ! i)) (c_start (?arr ! j)))"
    by blast
  from i len have ip: "i < length pts" by simp
  from c ci have ceq: "c = ?arr ! i" by simp
  from make_entry_Some[OF e] ceq nth[OF ip]
  have rp: "raw_person e = fst (pts ! i)" and rt: "raw_term e = snd (pts ! i)" by simp_all
  have below: "j < length pts" if "j < i" for j using that ip by simp
  have A: "current_term today Date_new (snd (pts ! i)) \<and>
        (\<forall>j < i. \<not> current_term today Date_new (snd (pts ! j))) \<and>
        (\<forall>j < length pts. current_term today Date_new (snd (pts ! j)) \<and>
           (\<forall>l < length pts. current_term today Date_new (snd (pts ! l)) \<longrightarrow> l = j) \<longrightarrow> i = j)"
    if ex: "\<exists>j < length pts. current_term today Date_new (snd (pts ! j))"
  proof -
    from ex obtain j where j: "j < length pts" "current_term today Date_new (snd (pts ! j))"
      by blast
    then have "isCurrent (?arr ! j)" using cur by simp
    with j(1) len have "\<exists>j < length ?arr. isCurrent (?arr ! j)" by auto
    with first have f1: "isCurrent (?arr ! i)" and f2: "\<forall>j < i. \<not> isCurrent (?arr ! j)"
      by blast+
    from f1 have a1: "current_term today Date_new (snd (pts ! i))" using cur[OF ip] by simp
    have a2: "\<forall>j < i. \<not> current_term today Date_new (snd (pts ! j))"
    proof (intro allI impI)
      fix j assume ji: "j < i"
      with f2 have "\<not> isCurrent (?arr ! j)" by blast
      then show "\<not> current_term today Date_new (snd (pts ! j))" using cur[OF below[OF ji]] by simp
    qed
    have a3: "\<forall>j < length pts. current_term today Date_new (snd (pts ! j)) \<and>
           (\<forall>l < length pts. current_term today Date_new (snd (pts ! l)) \<longrightarrow> l = j) \<longrightarrow> i = j"
    proof (intro allI impI)
      fix j assume "j < length pts"
        and u: "current_term today Date_new (snd (pts ! j)) \<and>
           (\<forall>l < length pts. current_term today Date_new (snd (pts ! l)) \<longrightarrow> l = j)"
      then have "i < length pts \<longrightarrow> current_term today Date_new (snd (pts ! i)) \<longrightarrow> i = j"
        by blast
      with ip a1 show "i = j" by blast
    qed
    from a1 a2 a3 show ?thesis by (intro conjI)
  qed
  have B: "(\<forall>j < length pts. js_le (start_epoch Date_new (snd (pts ! j)))
                                 (start_epoch Date_new (snd (pts ! i)))) \<and>
        (\<forall>j < i. js_gt (start_epoch Date_new (snd (pts ! i)))
                        (start_epoch Date_new (snd (pts ! j))))"
    if all: "\<forall>j < length pts. \<not> current_term today Date_new (snd (pts ! j)) \<and>
                         start_epoch Date_new (snd (pts ! j)) \<noteq> NaN"
  proof -
    have "\<forall>j < length ?arr. \<not> isCurrent (?arr ! j) \<and> c_start (?arr ! j) \<noteq> NaN"
    proof (intro allI impI)
      fix j assume "j < length ?arr"
      with len have jp: "j < length pts" by simp
      with all have "\<not> current_term today Date_new (snd (pts ! j)) \<and>
                         start_epoch Date_new (snd (pts ! j)) \<noteq> NaN" by blast
      then show "\<not> isCurrent (?arr ! j) \<and> c_start (?arr ! j) \<noteq> NaN"
        using cur[OF jp] st[OF jp] by simp
    qed
    with great have g1: "\<forall>j < length ?arr. js_le (c_start (?arr ! j)) (c_start (?arr ! i))"
      and g2: "\<forall>j < i. js_gt (c_start (?arr ! i)) (c_start (?arr ! j))" by blast+
    have b1: "\<forall>j < length pts. js_le (start_epoch Date_new (snd (pts ! j)))
                                 (start_epoch Date_new (snd (pts ! i)))"
    proof (intro allI impI)
      fix j assume jp: "j < length pts"
      with g1 len have "js_le (c_start (?arr ! j)) (c_start (?arr ! i))" by simp
      then show "js_le (start_epoch Date_new (snd (pts ! j))) (start_epoch Date_new (snd (pts ! i)))"
        using st[OF jp] st[OF ip] by simp
    qed
    have b2: "\<forall>j < i. js_gt (start_epoch Date_new (snd (pts ! i)))
                        (start_epoch Date_new (snd (pts ! j)))"
    proof (intro allI impI)
      fix j assume ji: "j < i"
      with g2 have "js_gt (c_start (?arr ! i)) (c_start (?arr ! j))" by blast
      then show "js_gt (start_epoch Date_new (snd (pts ! i))) (start_epoch Date_new (snd (pts ! j)))"
        using st[OF below[OF ji]] st[OF ip] by simp
    qed
    from b1 b2 show ?thesis by (rule conjI)
  qed
  show ?thesis
  proof (intro exI[of _ i] exI[of _ e] conjI)
    show "i < length pts" by (rule ip)
    show "map_of idx key = Some e" by (rule ie)
    show "raw_person e = fst (pts ! i)" by (rule rp)
    show "raw_term e = snd (pts ! i)" by (rule rt)
    show "(\<exists>j < length pts. current_term today Date_new (snd (pts ! j))) \<longrightarrow>
        current_term today Date_new (snd (pts ! i)) \<and>
        (\<forall>j < i. \<not> current_term today Date_new (snd (pts ! j))) \<and>
        (\<forall>j < length pts. current_term today Date_new (snd (pts ! j)) \<and>
           (\<forall>l < length pts. current_term today Date_new (snd (pts ! l)) \<longrightarrow> l = j) \<longrightarrow> i = j)"
      using A by (rule impI)
    show "(\<forall>j < length pts. \<not> current_term today Date_new (snd (pts ! j)) \<and>
                         start_epoch Date_new (snd (pts ! j)) \<noteq> NaN) \<longrightarrow>
        (\<forall>j < length pts. js_le (start_epoch Date_new (snd (pts ! j)))
                                 (start_epoch Date_new (snd (pts ! i)))) \<and>
        (\<forall>j < i. js_gt (start_epoch Date_new (snd (pts ! i)))
                        (start_epoch Date_new (snd (pts ! j))))"
      using B by (rule impI)
  qed
qed

text \<open>Claim C3 as stated fails where a start date is unparseable. Of two terms that are
  not current, one with the start epoch \<open>NaN\<close> and one with the start epoch \<open>-86400000\<close>
  (31 December 1969), the one that comes first is chosen, in either order: the choice
  follows the order although the start epochs differ. The index built from a roster with
  these two terms holds, under \<open>CA-12\<close>, the term that the roster lists first.\<close>

theorem C3_counterexample:
  "\<not> current_term today_sample Date_new_sample term_bad_start \<and>
   \<not> current_term today_sample Date_new_sample term_1969 \<and>
   start_epoch Date_new_sample term_bad_start = NaN \<and>
   start_epoch Date_new_sample term_1969 = Num (- 86400000) \<and>
   chosen [cand_sample [] term_bad_start, cand_sample [] term_1969] = Some (cand_sample [] term_bad_start) \<and>
   chosen [cand_sample [] term_1969, cand_sample [] term_bad_start] = Some (cand_sample [] term_1969) \<and>
   (case build big_sample today_sample Date_new_sample
        (Inr (DocsArray [PersonObject (jane [TermObject term_bad_start, TermObject term_1969])])) of
      Inl e \<Rightarrow> [] | Inr idx \<Rightarrow> map (\<lambda>ke. (fst ke, raw_term (snd ke))) idx) = [(''CA-12'', term_bad_start)] \<and>
   (case build big_sample today_sample Date_new_sample
        (Inr (DocsArray [PersonObject (jane [TermObject term_1969, TermObject term_bad_start])])) of
      Inl e \<Rightarrow> [] | Inr idx \<Rightarrow> map (\<lambda>ke. (fst ke, raw_term (snd ke))) idx) = [(''CA-12'', term_1969)]"
  by (simp add: sample_defs eval_defs)

text \<open>Claim C3, as amended, on two rosters with the key \<open>CA-12\<close>. With a term that has ended
  and an open-ended term of earlier start, the open-ended term is selected: it is
  current, although the other has the greater start epoch. With the terms of 1969, 1970
  and 1970 again, none current, the first term of 1970 is selected.\<close>

theorem C3_witness:
  "(\<exists>idx e. build big_sample today_sample Date_new_sample (Inr (DocsArray roster_current)) = Inr idx \<and>
      map_of idx ''CA-12'' = Some e \<and> raw_term e = term_since_1969) \<and>
   js_gt (start_epoch Date_new_sample term_ended_2021) (start_epoch Date_new_sample term_since_1969) \<and>
   (\<exists>idx e. build big_sample today_sample Date_new_sample (Inr (DocsArray roster_former)) = Inr idx \<and>
      map_of idx ''CA-12'' = Some e \<and> raw_term e = term_1970) \<and>
   start_epoch Date_new_sample term_1970 = start_epoch Date_new_sample term_1970_long \<and>
   term_1970 \<noteq> term_1970_long"
proof -
  let ?i1 = "[TermObject term_ended_2021, TermObject term_since_1969]"
  let ?p1 = "[(jane ?i1, term_ended_2021), (jane ?i1, term_since_1969)]"
  let ?i2 = "[TermObject term_1969, TermObject term_1970, TermObject term_1970_long]"
  let ?p2 = "[(jane ?i2, term_1969), (jane ?i2, term_1970), (jane ?i2, term_1970_long)]"
  have k: "term_key big_sample term_ended_2021 = Some ''CA-12''"
    "term_key big_sample term_since_1969 = Some ''CA-12''"
    "term_key big_sample term_1969 = Some ''CA-12''"
    "term_key big_sample term_1970 = Some ''CA-12''"
    "term_key big_sample term_1970_long = Some ''CA-12''"
    by (simp_all add: sample_defs eval_defs)
  have ty: "t_type term_ended_2021 = JStr ''rep''" "t_type term_since_1969 = JStr ''rep''"
    "t_type term_1969 = JStr ''rep''" "t_type term_1970 = JStr ''rep''"
    "t_type term_1970_long = JStr ''rep''"
    by (simp_all add: sample_defs)
  have pts1: "?p1 = terms_of_key big_sample roster_current ''CA-12''"
    by (simp add: terms_of_key_def all_rep_terms_def roster_current_def jane_def k ty)
  have pts2: "?p2 = terms_of_key big_sample roster_former ''CA-12''"
    by (simp add: terms_of_key_def all_rep_terms_def roster_former_def jane_def k ty)
  have cur1: "\<not> current_term today_sample Date_new_sample term_ended_2021"
    "current_term today_sample Date_new_sample term_since_1969"
    by (simp_all add: sample_defs current_term_def)
  have cur2: "\<not> current_term today_sample Date_new_sample term_1969"
    "\<not> current_term today_sample Date_new_sample term_1970"
    "\<not> current_term today_sample Date_new_sample term_1970_long"
    by (simp_all add: sample_defs current_term_def)
  have st: "start_epoch Date_new_sample term_1969 = Num (- 86400000)"
    "start_epoch Date_new_sample term_1970 = Num 0"
    "start_epoch Date_new_sample term_1970_long = Num 0"
    "start_epoch Date_new_sample term_ended_2021 = Num 1609632000000"
    "start_epoch Date_new_sample term_since_1969 = Num (- 86400000)"
    by (simp_all add: sample_defs start_epoch_def)
  have "\<exists>idx. build big_sample today_sample Date_new_sample (Inr (DocsArray roster_current)) = Inr idx"
    by (simp add: roster_current_def sample_defs eval_defs)
  then obtain idx1
    where b1: "build big_sample today_sample Date_new_sample (Inr (DocsArray roster_current)) = Inr idx1"
    by (elim exE)
  have "\<exists>idx. build big_sample today_sample Date_new_sample (Inr (DocsArray roster_former)) = Inr idx"
    by (simp add: roster_former_def sample_defs eval_defs)
  then obtain idx2
    where b2: "build big_sample today_sample Date_new_sample (Inr (DocsArray roster_former)) = Inr idx2"
    by (elim exE)
  have ne1: "?p1 \<noteq> []" and ne2: "?p2 \<noteq> []" by simp_all
  from C3_selection [OF b1 pts1 ne1]
  obtain i e where i: "i < length ?p1" and e: "map_of idx1 ''CA-12'' = Some e"
    and rt: "raw_term e = snd (?p1 ! i)"
    and sel: "(\<exists>j < length ?p1. current_term today_sample Date_new_sample (snd (?p1 ! j))) \<longrightarrow>
        current_term today_sample Date_new_sample (snd (?p1 ! i)) \<and>
        (\<forall>j < i. \<not> current_term today_sample Date_new_sample (snd (?p1 ! j))) \<and>
        (\<forall>j < length ?p1. current_term today_sample Date_new_sample (snd (?p1 ! j)) \<and>
           (\<forall>l < length ?p1. current_term today_sample Date_new_sample (snd (?p1 ! l)) \<longrightarrow> l = j) \<longrightarrow> i = j)"
    by (elim exE conjE)
  have "1 < length ?p1 \<and> current_term today_sample Date_new_sample (snd (?p1 ! 1))"
    using cur1(2) by simp
  then have ex1: "\<exists>j < length ?p1. current_term today_sample Date_new_sample (snd (?p1 ! j))"
    by (rule exI)
  have ci: "current_term today_sample Date_new_sample (snd (?p1 ! i))"
    by (rule conjunct1 [OF mp [OF sel ex1]])
  from i have "i = 0 \<or> i = 1" by auto
  then have i1: "i = 1"
  proof
    assume "i = 0"
    with ci cur1(1) show ?thesis by simp
  qed
  with rt have "raw_term e = term_since_1969" by simp
  with b1 e have first: "\<exists>idx e. build big_sample today_sample Date_new_sample
        (Inr (DocsArray roster_current)) = Inr idx \<and>
      map_of idx ''CA-12'' = Some e \<and> raw_term e = term_since_1969" by (intro exI conjI)
  from C3_selection [OF b2 pts2 ne2]
  obtain i e where i: "i < length ?p2" and e: "map_of idx2 ''CA-12'' = Some e"
    and rt: "raw_term e = snd (?p2 ! i)"
    and sel: "(\<forall>j < length ?p2. \<not> current_term today_sample Date_new_sample (snd (?p2 ! j)) \<and>
                         start_epoch Date_new_sample (snd (?p2 ! j)) \<noteq> NaN) \<longrightarrow>
        (\<forall>j < length ?p2. js_le (start_epoch Date_new_sample (snd (?p2 ! j)))
                                 (start_epoch Date_new_sample (snd (?p2 ! i)))) \<and>
        (\<forall>j < i. js_gt (start_epoch Date_new_sample (snd (?p2 ! i)))
                        (start_epoch Date_new_sample (snd (?p2 ! j))))"
    by (elim exE conjE)
  have all2: "\<forall>j < length ?p2. \<not> current_term today_sample Date_new_sample (snd (?p2 ! j)) \<and>
                         start_epoch Date_new_sample (snd (?p2 ! j)) \<noteq> NaN"
  proof (intro allI impI)
    fix j assume "j < length ?p2"
    then have "j = 0 \<or> j = 1 \<or> j = 2" by auto
    then show "\<not> current_term today_sample Date_new_sample (snd (?p2 ! j)) \<and>
                         start_epoch Date_new_sample (snd (?p2 ! j)) \<noteq> NaN"
      using cur2 st by auto
  qed
  have le: "\<forall>j < length ?p2. js_le (start_epoch Date_new_sample (snd (?p2 ! j)))
                                 (start_epoch Date_new_sample (snd (?p2 ! i)))"
    by (rule conjunct1 [OF mp [OF sel all2]])
  have gt: "\<forall>j < i. js_gt (start_epoch Date_new_sample (snd (?p2 ! i)))
                        (start_epoch Date_new_sample (snd (?p2 ! j)))"
    by (rule conjunct2 [OF mp [OF sel all2]])
  from le have "1 < length ?p2 \<longrightarrow> js_le (start_epoch Date_new_sample (snd (?p2 ! 1)))
                                 (start_epoch Date_new_sample (snd (?p2 ! i)))" by (rule spec)
  then have le1: "js_le (Num 0) (start_epoch Date_new_sample (snd (?p2 ! i)))"
    using st(2) by simp
  from gt have "1 < i \<longrightarrow> js_gt (start_epoch Date_new_sample (snd (?p2 ! i)))
                        (start_epoch Date_new_sample (snd (?p2 ! 1)))" by (rule spec)
  then have gt1: "1 < i \<longrightarrow> js_gt (start_epoch Date_new_sample (snd (?p2 ! i))) (Num 0)"
    using st(2) by simp
  from i have "i = 0 \<or> i = 1 \<or> i = 2" by auto
  then have "i = 1"
  proof (elim disjE)
    assume "i = 0"
    with le1 st(1) show ?thesis by simp
  next
    assume "i = 1"
    then show ?thesis .
  next
    assume "i = 2"
    with gt1 st(3) show ?thesis by simp
  qed
  with rt have "raw_term e = term_1970" by simp
  with b2 e have second: "\<exists>idx e. build big_sample today_sample Date_new_sample
        (Inr (DocsArray roster_former)) = Inr idx \<and>
      map_of idx ''CA-12'' = Some e \<and> raw_term e = term_1970" by (intro exI conjI)
  have g: "js_gt (start_epoch Date_new_sample term_ended_2021)
      (start_epoch Date_new_sample term_since_1969)" using st by simp
  have eqs: "start_epoch Date_new_sample term_1970 = start_epoch Date_new_sample term_1970_long"
    using st by simp
  have diff: "term_1970 \<noteq> term_1970_long" by (simp add: sample_defs)
  from first g second eqs diff show ?thesis by (intro conjI)
qed

text \<open>
  Claim C8. A second rebuild from the same roster outcome at the same instant leaves an
  index equal to the one the first rebuild left, key by key and as a whole; and when the
  build succeeds, the published index is the one the build computes from the roster and
  the instant, whatever index was published before.
\<close>

theorem C8_rebuild_idempotent:
  "(\<forall>key. map_of (INDEX (snd (loadIndex big today Date_new src (snd (loadIndex big today Date_new src w))))) key =
           map_of (INDEX (snd (loadIndex big today Date_new src w))) key) \<and>
   INDEX (snd (loadIndex big today Date_new src (snd (loadIndex big today Date_new src w)))) =
     INDEX (snd (loadIndex big today Date_new src w)) \<and>
   (case build big today Date_new src of
      Inl e \<Rightarrow> True
    | Inr idx \<Rightarrow> INDEX (snd (loadIndex big today Date_new src w)) = idx \<and>
                INDEX (snd (loadIndex big today Date_new src w')) = idx)"
  by (cases "build big today Date_new src") (simp_all add: loadIndex_def)

text \<open>Claim C8 on the roster with a former and a current term, from the empty index.\<close>

theorem C8_witness:
  "INDEX (snd (loadIndex big_sample today_sample Date_new_sample (Inr (DocsArray roster_current))
      (snd (loadIndex big_sample today_sample Date_new_sample (Inr (DocsArray roster_current)) \<lparr>INDEX = []\<rparr>)))) =
   INDEX (snd (loadIndex big_sample today_sample Date_new_sample (Inr (DocsArray roster_current)) \<lparr>INDEX = []\<rparr>)) \<and>
   map fst (INDEX (snd (loadIndex big_sample today_sample Date_new_sample (Inr (DocsArray roster_current)) \<lparr>INDEX = []\<rparr>))) =
     [''CA-12'']"
proof -
  have "map fst (INDEX (snd (loadIndex big_sample today_sample Date_new_sample (Inr (DocsArray roster_current)) \<lparr>INDEX = []\<rparr>))) =
     [''CA-12'']"
    by (simp add: loadIndex_def roster_current_def sample_defs eval_defs)
  moreover from C8_rebuild_idempotent [of big_sample today_sample Date_new_sample
      "Inr (DocsArray roster_current)" "\<lparr>INDEX = []\<rparr>" "\<lparr>INDEX = []\<rparr>"]
  have "INDEX (snd (loadIndex big_sample today_sample Date_new_sample (Inr (DocsArray roster_current))
      (snd (loadIndex big_sample today_sample Date_new_sample (Inr (DocsArray roster_current)) \<lparr>INDEX = []\<rparr>)))) =
   INDEX (snd (loadIndex big_sample today_sample Date_new_sample (Inr (DocsArray roster_current)) \<lparr>INDEX = []\<rparr>))"
    by (rule conjunct1 [OF conjunct2])
  ultimately show ?thesis by (intro conjI)
qed

text \<open>
  Claim C10. When the build fails, at the read of the file, in the YAML parser or in the
  loops, \<^verbatim>\<open>loadIndex\<close> throws and leaves the state as it was, and the reload handler answers
  with status 500 and leaves the state as it was: the published index is only replaced
  by the assignment that follows a completed build.
\<close>

theorem C10_failed_rebuild_keeps_index:
  assumes "build big today Date_new src = Inl e"
  shows "loadIndex big today Date_new src w = (Inl e, w) \<and>
         admin_reload big today Date_new src w = (Reload500 e, w)"
  using assms by (simp add: loadIndex_def admin_reload_def)

text \<open>Claim C10 on a roster whose second element is \<^verbatim>\<open>null\<close>: the loop has built the
  candidates of the first person when it throws, and the published index stays; on a
  file that cannot be read; and on a roster with a district that cannot be converted to
  a string.\<close>

theorem C10_witness:
  "build big_sample today_sample Date_new_sample (Inr (DocsArray roster_broken)) = Inl TypeError \<and>
   person_loop big_sample today_sample Date_new_sample [PersonObject (jane [TermObject term_CA12])] [] =
     Inr [(''CA-12'', [cand_sample [TermObject term_CA12] term_CA12])] \<and>
   admin_reload big_sample today_sample Date_new_sample (Inr (DocsArray roster_broken))
       \<lparr>INDEX = [(''TX-3'', entry_sample)]\<rparr> =
     (Reload500 TypeError, \<lparr>INDEX = [(''TX-3'', entry_sample)]\<rparr>) \<and>
   admin_reload big_sample today_sample Date_new_sample (Inl ReadError)
       \<lparr>INDEX = [(''TX-3'', entry_sample)]\<rparr> =
     (Reload500 ReadError, \<lparr>INDEX = [(''TX-3'', entry_sample)]\<rparr>) \<and>
   admin_reload big_sample today_sample Date_new_sample (Inr (DocsArray roster_no_string))
       \<lparr>INDEX = [(''TX-3'', entry_sample)]\<rparr> =
     (Reload500 TypeError, \<lparr>INDEX = [(''TX-3'', entry_sample)]\<rparr>)"
proof -
  have b: "build big_sample today_sample Date_new_sample (Inr (DocsArray roster_broken)) = Inl TypeError"
    by (simp add: roster_broken_def sample_defs eval_defs)
  have r: "build big_sample today_sample Date_new_sample (Inl ReadError) = Inl ReadError"
    by (simp add: build_def candidates_def)
  have n: "build big_sample today_sample Date_new_sample (Inr (DocsArray roster_no_string)) = Inl TypeError"
    by (simp add: roster_no_string_def sample_defs eval_defs)
  have p: "person_loop big_sample today_sample Date_new_sample [PersonObject (jane [TermObject term_CA12])] [] =
     Inr [(''CA-12'', [cand_sample [TermObject term_CA12] term_CA12])]"
    by (simp add: sample_defs eval_defs)
  from C10_failed_rebuild_keeps_index [OF b, of "\<lparr>INDEX = [(''TX-3'', entry_sample)]\<rparr>"]
    C10_failed_rebuild_keeps_index [OF r, of "\<lparr>INDEX = [(''TX-3'', entry_sample)]\<rparr>"]
    C10_failed_rebuild_keeps_index [OF n, of "\<lparr>INDEX = [(''TX-3'', entry_sample)]\<rparr>"] b p
  show ?thesis by simp
qed

section \<open>Locating the district collection\<close>

lemma scan_congress_none:
  "\<forall>k \<in> set ks. \<not> is_congress_key k \<Longrightarrow> scan_congress geogs ks = None"
  by (induction ks) (simp_all add: is_congress_key_def)

lemma scan_congress_first:
  "\<forall>k' \<in> set ks1. \<not> is_congress_key k' \<Longrightarrow> is_congress_key k \<Longrightarrow>
     scan_congress geogs (ks1 @ k # ks2) = geo_get geogs k"
  by (induction ks1) (simp_all add: is_congress_key_def)

lemma geo_get_absent: "k \<notin> set (map fst geogs) \<Longrightarrow> geo_get geogs k = None"
proof -
  assume "k \<notin> set (map fst geogs)"
  then have "map_of geogs k = None" by (simp add: map_of_eq_None_iff)
  then show ?thesis by (simp add: geo_get_def)
qed

lemma spellings_are_congress_keys:
  "is_congress_key ''Congressional Districts''" "is_congress_key ''Congressional District''"
  "is_congress_key ''CongressionalDistricts''" "is_congress_key ''Congressional district''"
  by (simp_all add: is_congress_key_def toLowerCase_def lower_char_def upper_chars_def lower_chars_def)

lemma known_spellings_need_key:
  assumes "\<forall>k \<in> set (map fst geogs). \<not> is_congress_key k"
  shows "known_spellings geogs = None"
proof -
  have "geo_get geogs k = None" if "is_congress_key k" for k
  proof -
    from that assms have "k \<notin> set (map fst geogs)" by blast
    then show ?thesis by (rule geo_get_absent)
  qed
  then have "geo_get geogs ''Congressional Districts'' = None"
    "geo_get geogs ''Congressional District'' = None"
    "geo_get geogs ''CongressionalDistricts'' = None"
    "geo_get geogs ''Congressional district'' = None"
    using spellings_are_congress_keys by blast+
  then show ?thesis by (simp add: known_spellings_def arr_or_def)
qed

lemma locate_no_key:
  assumes "\<forall>k \<in> set (map fst geogs). \<not> is_congress_key k"
  shows "locate_cdArray geogs = Inl NoDistrictsReturned"
proof -
  from assms have "scan_congress geogs (map fst geogs) = None" by (rule scan_congress_none)
  moreover from assms have "known_spellings geogs = None" by (rule known_spellings_need_key)
  ultimately show ?thesis by (simp add: locate_cdArray_def)
qed

lemma locate_first_key:
  assumes "map fst geogs = ks1 @ k # ks2" and "\<forall>k' \<in> set ks1. \<not> is_congress_key k'"
    and "is_congress_key k"
  shows "locate_cdArray geogs = (case geo_get geogs k of
       Some (cd # cds) \<Rightarrow> Inr (cd # cds)
     | _ \<Rightarrow> (case known_spellings geogs of
              Some (cd # cds) \<Rightarrow> Inr (cd # cds)
            | _ \<Rightarrow> Inl NoDistrictsReturned))"
proof -
  from assms have s: "scan_congress geogs (map fst geogs) = geo_get geogs k"
    by (simp add: scan_congress_first)
  show ?thesis
  proof (cases "geo_get geogs k")
    case None
    with s show ?thesis by (simp add: locate_cdArray_def split: option.splits list.splits)
  next
    case (Some arr)
    with s show ?thesis
      by (cases arr) (simp_all add: locate_cdArray_def split: option.splits list.splits)
  qed
qed

lemma locate_error: "locate_cdArray geogs = Inl e \<Longrightarrow> e = NoDistrictsReturned"
  by (auto simp: locate_cdArray_def Let_def split: option.splits list.splits if_splits)

lemma locate_error_no_keys:
  "locate_cdArray geogs = Inl e \<Longrightarrow>
     resolveDistricts big geogs = Inl NoDistrictsReturned \<and> api_rep big w geogs = Inl NoDistrictsReturned"
  using locate_error[of geogs e] by (simp add: resolveDistricts_def api_rep_def)

text \<open>
  Claim C5, as amended. The keys of the top-level geography mapping are scanned in order
  for the first one whose name holds \<open>congress\<close> in any mix of cases. When no key does,
  the extractor reports that no districts were returned: the fixed spellings are looked
  up then, but each of them holds \<open>congress\<close>, so none can be present. When the first such
  key holds a non-empty collection, that collection is used. When it holds \<^verbatim>\<open>null\<close> or an
  empty collection, the collection under the first of the fixed spellings that is
  present is used if it is non-empty, and otherwise the error is reported. The error
  replaces the keys: neither the extraction nor the response holds any.
\<close>

theorem C5_locate_collection:
  "((\<forall>k \<in> set (map fst geogs). \<not> is_congress_key k) \<longrightarrow>
      locate_cdArray geogs = Inl NoDistrictsReturned) \<and>
   (map fst geogs = ks1 @ k # ks2 \<and> (\<forall>k' \<in> set ks1. \<not> is_congress_key k') \<and> is_congress_key k \<longrightarrow>
      locate_cdArray geogs = (case geo_get geogs k of
          Some (cd # cds) \<Rightarrow> Inr (cd # cds)
        | _ \<Rightarrow> (case known_spellings geogs of
                 Some (cd # cds) \<Rightarrow> Inr (cd # cds)
               | _ \<Rightarrow> Inl NoDistrictsReturned))) \<and>
   (\<forall>e. locate_cdArray geogs = Inl e \<longrightarrow>
      resolveDistricts big geogs = Inl NoDistrictsReturned \<and> api_rep big w geogs = Inl NoDistrictsReturned)"
proof (intro conjI impI allI)
  assume "\<forall>k \<in> set (map fst geogs). \<not> is_congress_key k"
  then show "locate_cdArray geogs = Inl NoDistrictsReturned" by (rule locate_no_key)
next
  assume a: "map fst geogs = ks1 @ k # ks2 \<and> (\<forall>k' \<in> set ks1. \<not> is_congress_key k') \<and> is_congress_key k"
  from a have 1: "map fst geogs = ks1 @ k # ks2" by (rule conjunct1)
  from a have 2: "\<forall>k' \<in> set ks1. \<not> is_congress_key k'" by (rule conjunct1 [OF conjunct2])
  from a have 3: "is_congress_key k" by (rule conjunct2 [OF conjunct2])
  from 1 2 3 show "locate_cdArray geogs = (case geo_get geogs k of
          Some (cd # cds) \<Rightarrow> Inr (cd # cds)
        | _ \<Rightarrow> (case known_spellings geogs of
                 Some (cd # cds) \<Rightarrow> Inr (cd # cds)
               | _ \<Rightarrow> Inl NoDistrictsReturned))" by (rule locate_first_key)
next
  fix e assume "locate_cdArray geogs = Inl e"
  then have r: "resolveDistricts big geogs = Inl NoDistrictsReturned \<and> api_rep big w geogs = Inl NoDistrictsReturned"
    by (rule locate_error_no_keys)
  from r show "resolveDistricts big geogs = Inl NoDistrictsReturned" by (rule conjunct1)
  from r show "api_rep big w geogs = Inl NoDistrictsReturned" by (rule conjunct2)
qed

text \<open>Claim C5, as amended, on a mapping whose district collection is under the key
  \<^verbatim>\<open>119th CONGRESSional Districts\<close>, found by the scan, and on a mapping without such a key.\<close>

theorem C5_witness:
  "is_congress_key ''119th CONGRESSional Districts'' \<and> \<not> is_congress_key ''States'' \<and>
   locate_cdArray geogs_mixed_case = Inr [cd_CA12] \<and>
   locate_cdArray [(''States'', Some [cd_CA12])] = Inl NoDistrictsReturned \<and>
   api_rep big_sample \<lparr>INDEX = []\<rparr> [(''States'', Some [cd_CA12])] = Inl NoDistrictsReturned"
proof -
  have k1: "is_congress_key ''119th CONGRESSional Districts''"
    by (simp add: is_congress_key_def toLowerCase_def lower_char_def upper_chars_def lower_chars_def)
  have k2: "\<not> is_congress_key ''States''"
    by (simp add: is_congress_key_def toLowerCase_def lower_char_def upper_chars_def lower_chars_def)
  have m: "map fst geogs_mixed_case = [''States''] @ ''119th CONGRESSional Districts'' # []"
    by (simp add: geogs_mixed_case_def)
  have g: "geo_get geogs_mixed_case ''119th CONGRESSional Districts'' = Some [cd_CA12]"
    by (simp add: geogs_mixed_case_def geo_get_def)
  have n: "\<forall>k \<in> set (map fst [(''States'', Some [cd_CA12])]). \<not> is_congress_key k"
    using k2 by simp
  have k2': "\<forall>k' \<in> set [''States'']. \<not> is_congress_key k'" using k2 by simp
  note inst1 = C5_locate_collection [of geogs_mixed_case "[''States'']" "''119th CONGRESSional Districts''" "[]" big_sample "\<lparr>INDEX = []\<rparr>"]
  from inst1 m k2' k1 have "locate_cdArray geogs_mixed_case =
      (case geo_get geogs_mixed_case ''119th CONGRESSional Districts'' of
          Some (cd # cds) \<Rightarrow> Inr (cd # cds)
        | _ \<Rightarrow> (case known_spellings geogs_mixed_case of
                 Some (cd # cds) \<Rightarrow> Inr (cd # cds)
               | _ \<Rightarrow> Inl NoDistrictsReturned))" by blast
  with g have l1: "locate_cdArray geogs_mixed_case = Inr [cd_CA12]" by simp
  note inst2 = C5_locate_collection [of "[(''States'', Some [cd_CA12])]" "[]" "[]" "[]" big_sample "\<lparr>INDEX = []\<rparr>"]
  from inst2 n have l2: "locate_cdArray [(''States'', Some [cd_CA12])] = Inl NoDistrictsReturned" by blast
  with inst2 have l3: "api_rep big_sample \<lparr>INDEX = []\<rparr> [(''States'', Some [cd_CA12])] = Inl NoDistrictsReturned" by blast
  from k1 k2 l1 l2 l3 show ?thesis by (intro conjI)
qed

text \<open>Claim C5 as stated fails: the key \<open>congress\<close> matches the scan and holds an empty
  collection, and the extractor goes on to the fixed spellings and uses the collection under
  \<^verbatim>\<open>Congressional Districts\<close>, although a key matched.\<close>

theorem C5_counterexample:
  "is_congress_key ''congress'' \<and>
   scan_congress geogs_empty_match (map fst geogs_empty_match) = Some [] \<and>
   known_spellings geogs_empty_match = Some [cd_CA12] \<and>
   locate_cdArray geogs_empty_match = Inr [cd_CA12] \<and>
   resolveDistricts big_sample geogs_empty_match = Inr [''CA-12'']"
  by (simp add: is_congress_key_def toLowerCase_def lower_char_def upper_chars_def lower_chars_def
      geogs_empty_match_def geo_get_def known_spellings_def arr_or_def locate_cdArray_def
      resolveDistricts_def cd_key_def cd_state_def stateFips_def stateFipsRaw_def cd_get_def
      cd_CA12_def js_or_def padStart2_def FIPS_TO_STATE_get_def FIPS_TO_STATE_def
      districtNum_final_def districtNum_raw_def field_district_def test_district_def
      match_trailing_digits_def js_isspace_def is_digit_def String_parseInt_def parseInt_run_def
      render_run_def Let_def digits_value_def
      digit_value_def show_nat.simps set_add_def)

section \<open>The district number of a district-geography object\<close>

lemma includes_str_subset: "includes_str s needle \<Longrightarrow> set needle \<subseteq> set s"
proof (induction s)
  case Nil
  then show ?case by simp
next
  case (Cons c cs)
  show ?case
  proof (cases "take (length needle) (c # cs) = needle")
    case True
    then have "set needle = set (take (length needle) (c # cs))" by simp
    also have "\<dots> \<subseteq> set (c # cs)" by (rule set_take_subset)
    finally show ?thesis .
  next
    case False
    with Cons.prems have "includes_str cs needle" by simp
    then have "set needle \<subseteq> set cs" by (rule Cons.IH)
    then show ?thesis by auto
  qed
qed

lemma lower_c_d_not_n: "lower_char c = CHR ''c'' \<or> lower_char c = CHR ''d'' \<Longrightarrow> lower_char c \<noteq> CHR ''n''"
  by auto

lemma CD_key_has_no_name: "test_CD k \<Longrightarrow> \<not> includes_str (toLowerCase k) ''name''"
proof
  assume cd: "test_CD k" and inc: "includes_str (toLowerCase k) ''name''"
  from cd obtain c d ds where k: "k = c # d # ds" and c: "lower_char c = CHR ''c''"
    and d: "lower_char d = CHR ''d''" and ds: "list_all is_digit ds"
    by (cases k rule: test_CD.cases) auto
  have "CHR ''n'' \<notin> set (map lower_char ds)"
  proof
    assume "CHR ''n'' \<in> set (map lower_char ds)"
    then obtain x where x: "x \<in> set ds" "lower_char x = CHR ''n''" by auto
    with ds have "is_digit x" by (simp add: list_all_iff)
    then have "lower_char x = x" by (rule lower_char_digit)
    with x(2) \<open>is_digit x\<close> show False by (simp add: is_digit_def)
  qed
  with k c d have "CHR ''n'' \<notin> set (toLowerCase k)" by (simp add: toLowerCase_def)
  moreover from inc have "set ''name'' \<subseteq> set (toLowerCase k)" by (rule includes_str_subset)
  ultimately show False by simp
qed

lemma match_trailing_digits_Some:
  "match_trailing_digits s = Some m \<Longrightarrow> m \<noteq> [] \<and> list_all is_digit m"
proof -
  assume a: "match_trailing_digits s = Some m"
  let ?r = "takeWhile is_digit (dropWhile js_isspace (rev s))"
  from a have m: "m = rev ?r" and ne: "rev ?r \<noteq> []"
    by (auto simp: match_trailing_digits_def Let_def split: if_splits)
  have "list_all is_digit ?r" unfolding list_all_iff using set_takeWhileD by fastforce
  then have "list_all is_digit m" unfolding m by (simp add: list_all_iff)
  with m ne show ?thesis by simp
qed

lemma trailing_run_string:
  "match_trailing_digits s = Some m \<Longrightarrow> String_parseInt big m = render_run big m"
  using match_trailing_digits_Some[of s m] by (simp add: digit_run_string)

lemma render_run_nonempty: "\<forall>ds. big ds \<noteq> [] \<Longrightarrow> render_run big ds \<noteq> []"
  using show_nat_digits[of "digits_value ds"] by (simp add: render_run_def)

lemma to_string_None: "(to_string v = None) = (v = JNoString)"
  by (cases v) simp_all

lemma cd_get_convertible: "convertible_fields cd \<Longrightarrow> cd_get cd k \<noteq> JNoString"
proof (cases "map_of cd k")
  case None
  then show ?thesis by (simp add: cd_get_def)
next
  case (Some v)
  assume c: "convertible_fields cd"
  from Some have "(k, v) \<in> set cd" by (rule map_of_SomeD)
  with c have "v \<noteq> JNoString" by (auto simp: convertible_fields_def list_all_iff)
  with Some show ?thesis by (simp add: cd_get_def)
qed

lemma cd_get_string:
  "convertible_fields cd \<Longrightarrow> \<exists>s. to_string (cd_get cd k) = Some s"
  using cd_get_convertible[of cd k] to_string_None[of "cd_get cd k"]
  by (cases "to_string (cd_get cd k)") simp_all

text \<open>At a field whose value can be converted, and is a string of digits if the field is
  a \<open>CD\<close> field, the loop body does what the two rules say.\<close>

lemma field_district_rules:
  assumes "convertible_fields cd"
    and "\<not> (test_CD k \<and> truthy (cd_get cd k)) \<or>
         (case to_string (cd_get cd k) of Some s \<Rightarrow> plain_digits s | None \<Rightarrow> False)"
  shows "field_district big cd k =
     Inr (case rule_CD big cd k of Some d \<Rightarrow> Some d | None \<Rightarrow> rule_name big cd k)"
proof -
  from cd_get_string[OF assms(1)] obtain s where s: "to_string (cd_get cd k) = Some s" by blast
  show ?thesis
  proof (cases "test_CD k \<and> truthy (cd_get cd k)")
    case True
    with assms(2) s have p: "plain_digits s" by simp
    then have "String_parseInt big s = render_run big s"
      by (simp add: plain_digits_def digit_run_string)
    with True s p show ?thesis by (simp add: field_district_def rule_CD_def)
  next
    case False
    then have cd: "rule_CD big cd k = None" by (auto simp: rule_CD_def)
    show ?thesis
    proof (cases "includes_str (toLowerCase k) ''name'' \<and> truthy (cd_get cd k)")
      case n: False
      with False cd show ?thesis by (auto simp: field_district_def rule_name_def)
    next
      case n: True
      show ?thesis
      proof (cases "test_district s")
        case d: False
        with False n s cd show ?thesis by (auto simp: field_district_def rule_name_def)
      next
        case d: True
        show ?thesis
        proof (cases "match_trailing_digits s")
          case None
          with False n s cd d show ?thesis by (auto simp: field_district_def rule_name_def)
        next
          case (Some m)
          then have "String_parseInt big m = render_run big m" by (rule trailing_run_string)
          with Some False n s cd d show ?thesis by (auto simp: field_district_def rule_name_def)
        qed
      qed
    qed
  qed
qed

lemma rules_exclusive: "rule_CD big cd k = Some d \<Longrightarrow> rule_name big cd k = None"
  using CD_key_has_no_name[of k] by (auto simp: rule_CD_def rule_name_def split: if_splits)

lemma digit_CD_field:
  "digit_CD_fields cd \<Longrightarrow> k \<in> set (map fst cd) \<Longrightarrow>
     \<not> (test_CD k \<and> truthy (cd_get cd k)) \<or>
     (case to_string (cd_get cd k) of Some s \<Rightarrow> plain_digits s | None \<Rightarrow> False)"
  unfolding digit_CD_fields_def list_all_iff by blast

lemma field_yields:
  assumes "digit_CD_fields cd" and "convertible_fields cd" and "k \<in> set (map fst cd)"
  shows "(field_district big cd k = Inr (Some d)) =
           (rule_CD big cd k = Some d \<or> rule_name big cd k = Some d)"
    and "(field_district big cd k = Inr None) =
           (rule_CD big cd k = None \<and> rule_name big cd k = None)"
proof -
  note r = field_district_rules[OF assms(2) digit_CD_field[OF assms(1) assms(3)], of big]
  show "(field_district big cd k = Inr (Some d)) =
           (rule_CD big cd k = Some d \<or> rule_name big cd k = Some d)"
    using rules_exclusive[of big cd k] unfolding r by (cases "rule_CD big cd k") auto
  show "(field_district big cd k = Inr None) =
           (rule_CD big cd k = None \<and> rule_name big cd k = None)"
    unfolding r by (cases "rule_CD big cd k") simp_all
qed

lemma rule_nonempty:
  assumes "\<forall>ds. big ds \<noteq> []"
  shows "rule_CD big cd k = Some d \<Longrightarrow> d \<noteq> []" and "rule_name big cd k = Some d \<Longrightarrow> d \<noteq> []"
    and "rule_NAME big cd = Some d \<Longrightarrow> d \<noteq> []"
  using render_run_nonempty[OF assms]
  by (auto simp: rule_CD_def rule_name_def rule_NAME_def split: if_splits option.splits)

lemma scan_fields_none:
  "\<forall>k \<in> set ks. field_district big cd k = Inr None \<Longrightarrow> scan_fields big cd ks = Inr None"
  by (induction ks) simp_all

lemma scan_fields_first:
  "\<forall>k' \<in> set ks1. field_district big cd k' = Inr None \<Longrightarrow>
   field_district big cd k = Inr (Some d) \<Longrightarrow>
     scan_fields big cd (ks1 @ k # ks2) = Inr (Some d)"
  by (induction ks1) simp_all

lemma districtNum_first_field:
  assumes "map fst cd = ks1 @ k # ks2"
    and "\<forall>k' \<in> set ks1. field_district big cd k' = Inr None"
    and "field_district big cd k = Inr (Some d)" and "d \<noteq> []"
  shows "districtNum_final big cd = Inr (at_large_one d)"
proof -
  from assms have "scan_fields big cd (map fst cd) = Inr (Some d)"
    by (simp add: scan_fields_first)
  with assms(4) show ?thesis
    by (simp add: districtNum_final_def districtNum_raw_def at_large_one_def)
qed

lemma districtNum_no_field:
  assumes "\<forall>k \<in> set (map fst cd). field_district big cd k = Inr None"
    and "convertible_fields cd" and "\<forall>ds. big ds \<noteq> []"
  shows "districtNum_final big cd =
     Inr (case rule_NAME big cd of Some d \<Rightarrow> at_large_one d | None \<Rightarrow> ''1'')"
proof -
  from assms(1) have sc: "scan_fields big cd (map fst cd) = Inr None" by (rule scan_fields_none)
  from cd_get_string[OF assms(2)] obtain s where s: "to_string (cd_get cd ''NAME'') = Some s"
    by blast
  show ?thesis
  proof (cases "truthy (cd_get cd ''NAME'')")
    case False
    with sc show ?thesis by (simp add: districtNum_final_def districtNum_raw_def rule_NAME_def)
  next
    case True
    show ?thesis
    proof (cases "match_trailing_digits s")
      case None
      with True sc s show ?thesis
        by (simp add: districtNum_final_def districtNum_raw_def rule_NAME_def)
    next
      case (Some m)
      then have e: "String_parseInt big m = render_run big m" by (rule trailing_run_string)
      have ne: "render_run big m \<noteq> []" using assms(3) by (rule render_run_nonempty)
      from True sc s Some e ne show ?thesis
        by (simp add: districtNum_final_def districtNum_raw_def rule_NAME_def at_large_one_def)
    qed
  qed
qed

text \<open>
  Claim C2, as amended. Take a district-geography object of which every value can be
  converted to a string and of which every \<open>CD\<close> field that holds a truthy value holds one
  that is a run of digits as a string, and a runtime whose rendering of a number is never
  empty. The fields of the object are scanned once, in the order in which the object
  lists them, and the scan stops at the first field at which rule (a) or rule (b) yields:
  (a) the name is \<open>CD\<close> and one to three digits, in either case, and the value is truthy
  and a run of digits: the value read as a decimal integer and rendered again; (b) the
  name holds \<open>name\<close>, the value holds \<open>district\<close> and ends in a digit run: that run, read
  and rendered. No name falls under both rules. When no field yields, the \<open>NAME\<close> field's
  trailing digit run is taken, and without one the district is \<open>1\<close>. A district \<open>0\<close>
  becomes \<open>1\<close>. What the scan makes of a \<open>CD\<close> field whose truthy value is no run of digits
  is not part of the claim.
\<close>

theorem C2_first_yielding_field:
  assumes "digit_CD_fields cd" and "convertible_fields cd" and "\<forall>ds. big ds \<noteq> []"
  shows "(map fst cd = ks1 @ k # ks2 \<and>
    (\<forall>k' \<in> set ks1. rule_CD big cd k' = None \<and> rule_name big cd k' = None) \<and>
    (rule_CD big cd k = Some d \<or> rule_name big cd k = Some d) \<longrightarrow>
      districtNum_final big cd = Inr (at_large_one d)) \<and>
   ((\<forall>k \<in> set (map fst cd). rule_CD big cd k = None \<and> rule_name big cd k = None) \<longrightarrow>
      districtNum_final big cd =
        Inr (case rule_NAME big cd of Some d \<Rightarrow> at_large_one d | None \<Rightarrow> ''1'')) \<and>
   (\<forall>k' d'. rule_CD big cd k' = Some d' \<longrightarrow> rule_name big cd k' = None)"
proof (intro conjI impI allI)
  assume a: "map fst cd = ks1 @ k # ks2 \<and>
    (\<forall>k' \<in> set ks1. rule_CD big cd k' = None \<and> rule_name big cd k' = None) \<and>
    (rule_CD big cd k = Some d \<or> rule_name big cd k = Some d)"
  from a have 1: "map fst cd = ks1 @ k # ks2" by (rule conjunct1)
  from a have n: "\<forall>k' \<in> set ks1. rule_CD big cd k' = None \<and> rule_name big cd k' = None"
    by (rule conjunct1 [OF conjunct2])
  have 2: "\<forall>k' \<in> set ks1. field_district big cd k' = Inr None"
  proof
    fix k' assume k': "k' \<in> set ks1"
    with 1 have "k' \<in> set (map fst cd)" by simp
    from field_yields(2)[OF assms(1) assms(2) this, of big] n k'
    show "field_district big cd k' = Inr None" by blast
  qed
  from a have y: "rule_CD big cd k = Some d \<or> rule_name big cd k = Some d"
    by (rule conjunct2 [OF conjunct2])
  from 1 have "k \<in> set (map fst cd)" by simp
  from field_yields(1)[OF assms(1) assms(2) this, of big d] y
  have 3: "field_district big cd k = Inr (Some d)" by blast
  from y have 4: "d \<noteq> []" using rule_nonempty(1,2)[OF assms(3)] by blast
  from 1 2 3 4 show "districtNum_final big cd = Inr (at_large_one d)"
    by (rule districtNum_first_field)
next
  assume n: "\<forall>k \<in> set (map fst cd). rule_CD big cd k = None \<and> rule_name big cd k = None"
  have "\<forall>k \<in> set (map fst cd). field_district big cd k = Inr None"
  proof
    fix k assume k: "k \<in> set (map fst cd)"
    from field_yields(2)[OF assms(1) assms(2) this, of big] n k
    show "field_district big cd k = Inr None" by blast
  qed
  then show "districtNum_final big cd =
      Inr (case rule_NAME big cd of Some d \<Rightarrow> at_large_one d | None \<Rightarrow> ''1'')"
    using assms(2) assms(3) by (rule districtNum_no_field)
next
  fix k' d' assume "rule_CD big cd k' = Some d'"
  then show "rule_name big cd k' = None" by (rule rules_exclusive)
qed

lemmas lower_defs = toLowerCase_def lower_char_def upper_chars_def lower_chars_def

lemmas api_eval = cd_key_def cd_state_def stateFips_def stateFipsRaw_def cd_get_def js_or_def
  padStart2_def slice02_def FIPS_TO_STATE_get_def FIPS_TO_STATE_def Object_prototype_def
  districtNum_final_def districtNum_raw_def field_district_def test_district_def
  match_trailing_digits_def js_isspace_def is_digit_def String_parseInt_def parseInt_run_def
  render_run_def Let_def digits_value_def digit_value_def show_nat.simps set_add_def
  rule_CD_def rule_name_def rule_NAME_def plain_digits_def at_large_one_def

text \<open>Claim C2, as amended, on an object whose first yielding field is \<open>CD119\<close>, on one whose
  first yielding field is \<open>NAME\<close> under rule (b), and on one without a yielding field.\<close>

theorem C2_witness:
  "districtNum_final big_sample cd_padded = Inr ''7'' \<and>
   districtNum_final big_sample cd_CA12 = Inr ''12'' \<and>
   districtNum_final big_sample [(''STATE'', JStr ''06'')] = Inr ''1''"
proof -
  have big: "\<forall>ds. big_sample ds \<noteq> []" by (simp add: big_sample_def)
  have h1: "digit_CD_fields cd_padded" "convertible_fields cd_padded"
    by (simp_all add: digit_CD_fields_def convertible_fields_def cd_padded_def cd_get_def
        plain_digits_def is_digit_def lower_defs)
  have h2: "digit_CD_fields cd_CA12" "convertible_fields cd_CA12"
    by (simp_all add: digit_CD_fields_def convertible_fields_def cd_CA12_def cd_get_def
        lower_defs)
  have h3: "digit_CD_fields [(''STATE'', JStr ''06'')]" "convertible_fields [(''STATE'', JStr ''06'')]"
    by (simp_all add: digit_CD_fields_def convertible_fields_def cd_get_def lower_defs)
  have a: "map fst cd_padded = [] @ ''CD119'' # [''GEOID'']" by (simp add: cd_padded_def)
  have b: "rule_CD big_sample cd_padded ''CD119'' = Some ''7''"
    by (simp add: cd_padded_def api_eval lower_defs)
  from C2_first_yielding_field [OF h1 big, of "[]" "''CD119''" "[''GEOID'']" "''7''"] a b
  have 1: "districtNum_final big_sample cd_padded = Inr (at_large_one ''7'')" by simp
  have c: "map fst cd_CA12 = [''STATE''] @ ''NAME'' # []" by (simp add: cd_CA12_def)
  have d: "rule_CD big_sample cd_CA12 ''STATE'' = None \<and> rule_name big_sample cd_CA12 ''STATE'' = None"
    by (simp add: cd_CA12_def api_eval lower_defs)
  have e: "rule_name big_sample cd_CA12 ''NAME'' = Some ''12''"
    by (simp add: cd_CA12_def api_eval lower_defs)
  from C2_first_yielding_field [OF h2 big, of "[''STATE'']" "''NAME''" "[]" "''12''"] c d e
  have 2: "districtNum_final big_sample cd_CA12 = Inr (at_large_one ''12'')" by simp
  have f: "\<forall>k \<in> set (map fst [(''STATE'', JStr ''06'')]).
      rule_CD big_sample [(''STATE'', JStr ''06'')] k = None \<and>
      rule_name big_sample [(''STATE'', JStr ''06'')] k = None"
    by (simp add: api_eval lower_defs)
  have g: "rule_NAME big_sample [(''STATE'', JStr ''06'')] = None" by (simp add: api_eval)
  from C2_first_yielding_field [OF h3 big, of "[]" "[]" "[]" "[]"] f g
  have 3: "districtNum_final big_sample [(''STATE'', JStr ''06'')] = Inr ''1''" by simp
  from 1 2 3 show ?thesis by (simp add: at_large_one_def)
qed

text \<open>Claim C2 as stated fails: in an object that lists \<open>NAMELSAD\<close> before \<open>CD119\<close>, rule (a)
  yields \<open>12\<close> at the field \<open>CD119\<close>, and the district is \<open>7\<close>, from the name field that
  comes first. And the value of a \<open>CD\<close> field is not used as it is: \<open>07\<close> gives \<open>7\<close>.\<close>

theorem C2_counterexample:
  "test_CD ''CD119'' \<and> rule_CD big_sample cd_name_first ''CD119'' = Some ''12'' \<and>
   districtNum_final big_sample cd_name_first = Inr ''7'' \<and>
   cd_key big_sample cd_name_first = Inr (Some ''CA-7'') \<and>
   cd_get cd_padded ''CD119'' = JStr ''07'' \<and> cd_key big_sample cd_padded = Inr (Some ''CA-7'')"
  by (simp add: cd_name_first_def cd_padded_def api_eval lower_defs)

text \<open>A digit run above \<open>2^53\<close> is rendered as the nearest double: the \<open>CD\<close> value
  \<^verbatim>\<open>"9007199254740993"\<close> gives the district \<open>9007199254740992\<close>.\<close>

lemma large_CD_value_rounded:
  "cd_key big_sample [(''CD119'', JStr ''9007199254740993''), (''STATE'', JStr ''06'')] =
     Inr (Some ''CA-9007199254740992'')"
proof -
  let ?cd = "[(''CD119'', JStr ''9007199254740993''), (''STATE'', JStr ''06'')]"
  have p: "String_parseInt big_sample ''9007199254740993'' = render_run big_sample ''9007199254740993''"
    by (rule digit_run_string) (simp_all add: is_digit_def)
  have v: "digits_value ''9007199254740993'' = 9007199254740993"
    by (simp add: digits_value_def digit_value_def)
  have r: "render_run big_sample ''9007199254740993'' = ''9007199254740992''"
    unfolding render_run_def v by (simp add: big_sample_def)
  have t: "test_CD ''CD119''" by (simp add: is_digit_def lower_defs)
  have f: "field_district big_sample ?cd ''CD119'' = Inr (Some ''9007199254740992'')"
    unfolding field_district_def using t by (simp add: cd_get_def p r)
  have d: "districtNum_final big_sample ?cd = Inr ''9007199254740992''"
    by (simp add: districtNum_final_def districtNum_raw_def f)
  have s: "cd_state ?cd = Inr (JStr ''CA'')"
    by (simp add: cd_state_def stateFips_def stateFipsRaw_def cd_get_def js_or_def padStart2_def
        FIPS_TO_STATE_get_def FIPS_TO_STATE_def)
  show ?thesis by (simp add: cd_key_def d s)
qed

section \<open>The join against the index\<close>

lemma split_no_hyphen: "CHR ''-'' \<notin> set d \<Longrightarrow> split_hyphen d = [d]"
  by (induction d) auto

lemma split_at_hyphen:
  "CHR ''-'' \<notin> set st \<Longrightarrow> split_hyphen (st @ CHR ''-'' # rest) = st # split_hyphen rest"
  by (induction st) auto

lemma key_parts:
  assumes "CHR ''-'' \<notin> set st" and "CHR ''-'' \<notin> set d"
  shows "key_state (st @ CHR ''-'' # d) = st \<and> key_district (st @ CHR ''-'' # d) = Some d"
  using assms by (simp add: key_state_def key_district_def split_at_hyphen split_no_hyphen)

lemma resolve_missing:
  "map_of idx k = None \<Longrightarrow> resolve_key idx k = Inr (Placeholder (key_state k) (key_district k))"
  by (simp add: resolve_key_def)

lemma resolve_all_missing:
  "\<forall>k \<in> set ks. map_of idx k = None \<Longrightarrow>
     resolveRepresentatives idx ks =
       Inr (map (\<lambda>k. Placeholder (key_state k) (key_district k)) ks)"
  by (induction ks) (simp_all add: resolve_missing)

lemma resolveRepresentatives_each:
  "resolveRepresentatives idx ks = Inr reps \<Longrightarrow> map (resolve_key idx) ks = map Inr reps"
proof (induction ks arbitrary: reps)
  case Nil
  then show ?case by simp
next
  case (Cons k ks)
  show ?case
  proof (cases "resolve_key idx k")
    case (Inl e)
    with Cons.prems show ?thesis by simp
  next
    case (Inr rep)
    note rep = Inr
    show ?thesis
    proof (cases "resolveRepresentatives idx ks")
      case (Inl e)
      with rep Cons.prems show ?thesis by simp
    next
      case (Inr rest)
      with rep Cons.prems have "reps = rep # rest" by simp
      with Cons.IH[OF Inr] rep show ?thesis by simp
    qed
  qed
qed

text \<open>
  What the join does for a key without an entry in the index: it yields the placeholder
  with the first two segments of the key between hyphens as state and district, and the
  missing flag. For a key made of a state, one hyphen and a district these are that state
  and that district. Where every key is without an entry the join returns one
  placeholder for each key and throws nothing.
\<close>

theorem placeholder_of_key:
  assumes "map_of idx k = None"
  shows "resolve_key idx k = Inr (Placeholder (key_state k) (key_district k)) \<and>
     missing (Placeholder (key_state k) (key_district k)) \<and>
     (\<forall>st d. k = st @ CHR ''-'' # d \<and> CHR ''-'' \<notin> set st \<and> CHR ''-'' \<notin> set d \<longrightarrow>
        resolve_key idx k = Inr (Placeholder st (Some d))) \<and>
     ((\<forall>k' \<in> set ks. map_of idx k' = None) \<longrightarrow>
        resolveRepresentatives idx ks =
          Inr (map (\<lambda>k. Placeholder (key_state k) (key_district k)) ks))"
proof -
  from assms have r: "resolve_key idx k = Inr (Placeholder (key_state k) (key_district k))"
    by (rule resolve_missing)
  have s: "\<forall>st d. k = st @ CHR ''-'' # d \<and> CHR ''-'' \<notin> set st \<and> CHR ''-'' \<notin> set d \<longrightarrow>
        resolve_key idx k = Inr (Placeholder st (Some d))"
  proof (intro allI impI)
    fix st d
    assume a: "k = st @ CHR ''-'' # d \<and> CHR ''-'' \<notin> set st \<and> CHR ''-'' \<notin> set d"
    then have "key_state k = st \<and> key_district k = Some d" using key_parts[of st d] by simp
    with r show "resolve_key idx k = Inr (Placeholder st (Some d))" by simp
  qed
  have t: "(\<forall>k' \<in> set ks. map_of idx k' = None) \<longrightarrow>
        resolveRepresentatives idx ks =
          Inr (map (\<lambda>k. Placeholder (key_state k) (key_district k)) ks)"
    using resolve_all_missing by blast
  from r s t show ?thesis by simp
qed

text \<open>
  Claim C6: a key without an entry in the index is answered by a placeholder that carries
  the state and the district. The join reads both off the key by \<^verbatim>\<open>k.split('-')\<close> and
  misses the keys whose district holds a hyphen. Such a key comes from the object
  \<^verbatim>\<open>{"CD119": "-5", "STATE": "06"}\<close>: line 306 parses the value of the \<open>CD\<close> field with its
  sign, the key is \<open>CA--5\<close>, and the placeholder carries the state \<open>CA\<close> and the empty
  district, not the district \<open>-5\<close> of the key.
\<close>

theorem C6_hyphen_in_district:
  "cd_key big cd_minus5 = Inr (Some ''CA--5'') \<and>
   map_of ([] :: index) ''CA--5'' = None \<and>
   resolve_key [] ''CA--5'' = Inr (Placeholder ''CA'' (Some [])) \<and>
   api_rep big \<lparr>INDEX = []\<rparr> [(''Congressional Districts'', Some [cd_minus5])] =
     Inr ([''CA--5''], [Placeholder ''CA'' (Some [])])"
  by (simp add: cd_minus5_def api_eval lower_defs is_congress_key_def geo_get_def
      known_spellings_def arr_or_def locate_cdArray_def resolveDistricts_def api_rep_def
      resolve_key_def key_state_def key_district_def)

section \<open>The state of a district-geography object and the set of keys\<close>

lemma FIPS_values_nonempty: "map_of FIPS_TO_STATE f = Some st \<Longrightarrow> st \<noteq> []"
proof -
  assume "map_of FIPS_TO_STATE f = Some st"
  then have "(f, st) \<in> set FIPS_TO_STATE" by (rule map_of_SomeD)
  moreover have "\<forall>kv \<in> set FIPS_TO_STATE. snd kv \<noteq> []" by (simp add: FIPS_TO_STATE_def)
  ultimately show ?thesis by auto
qed

text \<open>On an object of which every value can be converted, the district number is
  computed without an exception.\<close>

lemma field_district_total:
  "convertible_fields cd \<Longrightarrow> \<exists>x. field_district big cd k = Inr x"
  using cd_get_string[of cd k] by (auto simp: field_district_def split: option.splits)

lemma scan_fields_total:
  "convertible_fields cd \<Longrightarrow> \<exists>x. scan_fields big cd ks = Inr x"
proof (induction ks)
  case Nil
  then show ?case by simp
next
  case (Cons k ks)
  from field_district_total[OF Cons.prems, of big k] obtain x
    where x: "field_district big cd k = Inr x" by blast
  from Cons.IH[OF Cons.prems] x show ?case by (cases x) simp_all
qed

lemma districtNum_total:
  assumes "convertible_fields cd"
  shows "\<exists>d. districtNum_final big cd = Inr d"
proof -
  from scan_fields_total[OF assms, of big "map fst cd"] obtain x
    where x: "scan_fields big cd (map fst cd) = Inr x" by blast
  from cd_get_string[OF assms, of "''NAME''"] obtain s
    where s: "to_string (cd_get cd ''NAME'') = Some s" by blast
  have "\<exists>y. districtNum_raw big cd = Inr y"
    using x s by (simp add: districtNum_raw_def split: option.splits)
  then obtain y where "districtNum_raw big cd = Inr y" by blast
  then show ?thesis by (cases y) (simp_all add: districtNum_final_def)
qed

lemma stateFips_sources:
  "stateFips cd =
     (if truthy (cd_get cd ''STATE'')
      then (case to_string (cd_get cd ''STATE'') of
              None \<Rightarrow> Inl LookupFailed | Some s \<Rightarrow> Inr (Some (padStart2 s)))
      else if truthy (cd_get cd ''STATEFP'')
      then (case to_string (cd_get cd ''STATEFP'') of
              None \<Rightarrow> Inl LookupFailed | Some s \<Rightarrow> Inr (Some (padStart2 s)))
      else if truthy (cd_get cd ''GEOID'')
      then (case to_string (cd_get cd ''GEOID'') of
              None \<Rightarrow> Inl LookupFailed
            | Some s \<Rightarrow> if take 2 s = [] then Inr None else Inr (Some (padStart2 (take 2 s))))
      else Inr None)"
  by (simp add: stateFips_def stateFipsRaw_def js_or_def slice02_def split: option.splits)

lemma missing_fips_skipped:
  "districtNum_final big cd = Inr d \<Longrightarrow> stateFips cd = Inr None \<Longrightarrow> cd_key big cd = Inr None"
  by (simp add: cd_key_def cd_state_def)

lemma unrecognized_fips_skipped:
  assumes "districtNum_final big cd = Inr d" and "stateFips cd = Inr (Some f)"
    and "map_of FIPS_TO_STATE f = None" and "map_of Object_prototype f = None"
  shows "cd_key big cd = Inr None"
  using assms by (simp add: cd_key_def cd_state_def FIPS_TO_STATE_get_def js_or_def)

lemma recognized_fips_key:
  assumes "districtNum_final big cd = Inr d" and "stateFips cd = Inr (Some f)"
    and "map_of FIPS_TO_STATE f = Some st"
  shows "cd_key big cd = Inr (Some (st @ CHR ''-'' # d))"
proof -
  from assms(3) have ne: "st \<noteq> []" by (rule FIPS_values_nonempty)
  have "f \<noteq> []"
  proof
    assume "f = []"
    with assms(3) show False by (simp add: FIPS_TO_STATE_def)
  qed
  with assms ne show ?thesis by (simp add: cd_key_def cd_state_def FIPS_TO_STATE_get_def js_or_def)
qed

lemma skipped_object_leaves_rest:
  "cd_key big cd = Inr None \<Longrightarrow>
     collect_keys big (xs @ cd # ys) found = collect_keys big (xs @ ys) found"
proof (induction xs arbitrary: found)
  case Nil
  then show ?case by simp
next
  case (Cons x xs)
  show ?case
  proof (cases "cd_key big x")
    case (Inl e)
    then show ?thesis by simp
  next
    case (Inr r)
    with Cons show ?thesis by (cases r) simp_all
  qed
qed

lemma collect_keys_step:
  assumes "collect_keys big (cd # cds) found = Inr keys"
  shows "(cd_key big cd = Inr None \<and> collect_keys big cds found = Inr keys) \<or>
         (\<exists>k. cd_key big cd = Inr (Some k) \<and> collect_keys big cds (set_add k found) = Inr keys)"
proof (cases "cd_key big cd")
  case (Inl e)
  with assms show ?thesis by simp
next
  case (Inr r)
  with assms show ?thesis by (cases r) simp_all
qed

lemma collect_keys_distinct:
  "collect_keys big cds found = Inr keys \<Longrightarrow> distinct found \<Longrightarrow> distinct keys"
proof (induction cds arbitrary: found)
  case Nil
  then show ?case by simp
next
  case (Cons cd cds)
  from collect_keys_step[OF Cons.prems(1)] show ?case
  proof (elim disjE conjE exE)
    assume "collect_keys big cds found = Inr keys"
    from Cons.IH[OF this Cons.prems(2)] show ?thesis .
  next
    fix k assume r: "collect_keys big cds (set_add k found) = Inr keys"
    from Cons.prems(2) have "distinct (set_add k found)" by (simp add: set_add_def)
    from Cons.IH[OF r this] show ?thesis .
  qed
qed

lemma collect_keys_set:
  "collect_keys big cds found = Inr keys \<Longrightarrow> set keys = set found \<union> extracted_keys big cds"
proof (induction cds arbitrary: found)
  case Nil
  then show ?case by (simp add: extracted_keys_def)
next
  case (Cons cd cds)
  from collect_keys_step[OF Cons.prems] show ?case
  proof (elim disjE conjE exE)
    assume n: "cd_key big cd = Inr None" and r: "collect_keys big cds found = Inr keys"
    from n have "extracted_keys big (cd # cds) = extracted_keys big cds"
      by (auto simp: extracted_keys_def)
    with Cons.IH[OF r] show ?thesis by simp
  next
    fix k assume s: "cd_key big cd = Inr (Some k)"
      and r: "collect_keys big cds (set_add k found) = Inr keys"
    from s have "extracted_keys big (cd # cds) = insert k (extracted_keys big cds)"
      by (auto simp: extracted_keys_def)
    moreover have "set (set_add k found) = insert k (set found)" by (auto simp: set_add_def)
    ultimately show ?thesis using Cons.IH[OF r] by auto
  qed
qed

text \<open>
  What the handler does hold to: when it answers with districts and representatives, the
  districts are the keys that the objects of the located collection yield, each once,
  and the representatives are the districts resolved one by one in the same order, as
  many as there are distinct extracted keys.
\<close>

theorem one_record_per_key:
  assumes "locate_cdArray geogs = Inr cdArray" and "api_rep big w geogs = Inr (districts, reps)"
  shows "distinct districts \<and> set districts = extracted_keys big cdArray \<and>
     length reps = card (extracted_keys big cdArray) \<and>
     map (resolve_key (INDEX w)) districts = map Inr reps"
proof -
  from assms(2) obtain keys where rd: "resolveDistricts big geogs = Inr keys"
    by (cases "resolveDistricts big geogs") (simp_all add: api_rep_def)
  with assms(1) have ck: "collect_keys big cdArray [] = Inr keys"
    by (simp add: resolveDistricts_def)
  from assms(2) rd have ne: "keys \<noteq> []"
    by (auto simp: api_rep_def split: if_splits)
  from assms(2) rd ne obtain rs where rr: "resolveRepresentatives (INDEX w) keys = Inr rs"
    by (cases "resolveRepresentatives (INDEX w) keys") (simp_all add: api_rep_def)
  with assms(2) rd ne have d: "districts = keys" and r: "reps = rs"
    by (simp_all add: api_rep_def)
  from collect_keys_distinct[OF ck] d have dist: "distinct districts" by simp
  from collect_keys_set[OF ck] d have st: "set districts = extracted_keys big cdArray" by simp
  from resolveRepresentatives_each[OF rr] d r
  have m: "map (resolve_key (INDEX w)) districts = map Inr reps" by simp
  then have "length (map (resolve_key (INDEX w)) districts) = length (map Inr reps)" by simp
  then have len: "length districts = length reps" by simp
  from dist have "card (set districts) = length districts" by (rule distinct_card)
  with st len have l: "length reps = card (extracted_keys big cdArray)" by simp
  from dist st l m show ?thesis by (intro conjI)
qed

text \<open>
  Claim C9: one resolved representative for each distinct extracted key, and no
  duplicates in the output. The keys of the output are distinct, but the records are
  not: the objects \<^verbatim>\<open>{"CD119": "-5", "STATE": "06"}\<close> and \<^verbatim>\<open>{"CD119": "-7", "STATE": "06"}\<close>
  yield the two keys \<open>CA--5\<close> and \<open>CA--7\<close>, and \<^verbatim>\<open>k.split('-')\<close> reads the state \<open>CA\<close> and the
  empty district off both: the output holds the same record twice.
\<close>

theorem C9_identical_records:
  "api_rep big \<lparr>INDEX = []\<rparr> geogs_minus =
     Inr ([''CA--5'', ''CA--7''], [Placeholder ''CA'' (Some []), Placeholder ''CA'' (Some [])]) \<and>
   distinct [''CA--5'', ''CA--7''] \<and>
   \<not> distinct [Placeholder ''CA'' (Some []), Placeholder ''CA'' (Some [])]"
  by (simp add: geogs_minus_def cd_minus5_def cd_minus7_def api_eval lower_defs
      is_congress_key_def geo_get_def known_spellings_def arr_or_def locate_cdArray_def
      resolveDistricts_def api_rep_def resolve_key_def key_state_def key_district_def)

text \<open>
  The state FIPS code of a district-geography object is read from \<open>STATE\<close>, else from
  \<open>STATEFP\<close>, else from the first two characters of \<open>GEOID\<close>, each when truthy, and padded
  with zeros to two characters. On an object of which every value can be converted to a
  string: a code of the table gives the key of the table's state and the object's
  district; an object without a code, or with a code that is neither in the table nor the
  name of a member of \<^verbatim>\<open>Object.prototype\<close>, yields no key, and the keys collected from the
  objects around it are the same as without it.
\<close>

theorem state_of_object:
  assumes "convertible_fields cd"
  shows "stateFips cd =
     (if truthy (cd_get cd ''STATE'')
      then (case to_string (cd_get cd ''STATE'') of
              None \<Rightarrow> Inl LookupFailed | Some s \<Rightarrow> Inr (Some (padStart2 s)))
      else if truthy (cd_get cd ''STATEFP'')
      then (case to_string (cd_get cd ''STATEFP'') of
              None \<Rightarrow> Inl LookupFailed | Some s \<Rightarrow> Inr (Some (padStart2 s)))
      else if truthy (cd_get cd ''GEOID'')
      then (case to_string (cd_get cd ''GEOID'') of
              None \<Rightarrow> Inl LookupFailed
            | Some s \<Rightarrow> if take 2 s = [] then Inr None else Inr (Some (padStart2 (take 2 s))))
      else Inr None) \<and>
   (\<exists>d. districtNum_final big cd = Inr d \<and>
      (\<forall>f st. stateFips cd = Inr (Some f) \<and> map_of FIPS_TO_STATE f = Some st \<longrightarrow>
         cd_key big cd = Inr (Some (st @ CHR ''-'' # d)))) \<and>
   (stateFips cd = Inr None \<or>
    (\<exists>f. stateFips cd = Inr (Some f) \<and> map_of FIPS_TO_STATE f = None \<and>
         map_of Object_prototype f = None) \<longrightarrow>
      cd_key big cd = Inr None \<and>
      collect_keys big (xs @ cd # ys) found = collect_keys big (xs @ ys) found)"
proof -
  from districtNum_total[OF assms, of big] obtain d where d: "districtNum_final big cd = Inr d"
    by blast
  have 2: "\<exists>d. districtNum_final big cd = Inr d \<and>
      (\<forall>f st. stateFips cd = Inr (Some f) \<and> map_of FIPS_TO_STATE f = Some st \<longrightarrow>
         cd_key big cd = Inr (Some (st @ CHR ''-'' # d)))"
    using d recognized_fips_key[OF d] by blast
  have 3: "stateFips cd = Inr None \<or>
    (\<exists>f. stateFips cd = Inr (Some f) \<and> map_of FIPS_TO_STATE f = None \<and>
         map_of Object_prototype f = None) \<longrightarrow>
      cd_key big cd = Inr None \<and>
      collect_keys big (xs @ cd # ys) found = collect_keys big (xs @ ys) found"
  proof
    assume "stateFips cd = Inr None \<or>
      (\<exists>f. stateFips cd = Inr (Some f) \<and> map_of FIPS_TO_STATE f = None \<and>
         map_of Object_prototype f = None)"
    then have n: "cd_key big cd = Inr None"
      using missing_fips_skipped[OF d] unrecognized_fips_skipped[OF d] by blast
    then have "collect_keys big (xs @ cd # ys) found = collect_keys big (xs @ ys) found"
      by (rule skipped_object_leaves_rest)
    with n show "cd_key big cd = Inr None \<and>
      collect_keys big (xs @ cd # ys) found = collect_keys big (xs @ ys) found" by simp
  qed
  from stateFips_sources[of cd] 2 3 show ?thesis by (intro conjI)
qed

text \<open>The same on an object with the unknown code \<open>99\<close> between two others, on an object
  with the numeric \<open>STATEFP\<close> 48, and on an object with a \<open>GEOID\<close> only. An object with a
  value that cannot be converted is not skipped: the exception ends the lookup with the
  answer 500, whatever its state code.\<close>

theorem state_of_object_example:
  "stateFips cd_unknown_state = Inr (Some ''99'') \<and> cd_key big_sample cd_unknown_state = Inr None \<and>
   collect_keys big_sample ([cd_CA12] @ cd_unknown_state # [cd_TX3]) [] =
     collect_keys big_sample ([cd_CA12] @ [cd_TX3]) [] \<and>
   stateFips cd_TX3 = Inr (Some ''48'') \<and> cd_key big_sample cd_TX3 = Inr (Some ''TX-3'') \<and>
   stateFips cd_padded = Inr (Some ''06'')"
proof -
  have s1: "stateFips cd_unknown_state = Inr (Some ''99'')" "stateFips cd_TX3 = Inr (Some ''48'')"
    "stateFips cd_padded = Inr (Some ''06'')"
    by (simp_all add: cd_unknown_state_def cd_TX3_def cd_padded_def api_eval)
  have t: "map_of FIPS_TO_STATE ''99'' = None" "map_of Object_prototype ''99'' = None"
    "map_of FIPS_TO_STATE ''48'' = Some ''TX''"
    by (simp_all add: FIPS_TO_STATE_def Object_prototype_def)
  have c: "convertible_fields cd_unknown_state" "convertible_fields cd_TX3"
    by (simp_all add: convertible_fields_def cd_unknown_state_def cd_TX3_def)
  have d: "districtNum_final big_sample cd_TX3 = Inr ''3''"
    by (simp add: cd_TX3_def api_eval lower_defs)
  note u = state_of_object [OF c(1), of big_sample "[cd_CA12]" "[cd_TX3]" "[]"]
  from u s1(1) t(1,2) have a: "cd_key big_sample cd_unknown_state = Inr None \<and>
      collect_keys big_sample ([cd_CA12] @ cd_unknown_state # [cd_TX3]) [] =
        collect_keys big_sample ([cd_CA12] @ [cd_TX3]) []"
    by blast
  note v = state_of_object [OF c(2), of big_sample "[]" "[]" "[]"]
  from v obtain d' where d': "districtNum_final big_sample cd_TX3 = Inr d'"
    and k: "\<forall>f st. stateFips cd_TX3 = Inr (Some f) \<and> map_of FIPS_TO_STATE f = Some st \<longrightarrow>
         cd_key big_sample cd_TX3 = Inr (Some (st @ CHR ''-'' # d'))" by blast
  from k s1(2) t(3) have "cd_key big_sample cd_TX3 = Inr (Some (''TX'' @ CHR ''-'' # d'))" by blast
  with d d' have b: "cd_key big_sample cd_TX3 = Inr (Some ''TX-3'')" by simp
  from s1 a b show ?thesis by simp
qed

lemma unconvertible_value_fails_lookup:
  "\<not> convertible_fields cd_no_string \<and> cd_key big cd_no_string = Inl LookupFailed \<and>
   api_rep big w [(''Congressional Districts'', Some [cd_CA12, cd_no_string])] = Inl LookupFailed"
  by (simp add: cd_no_string_def cd_CA12_def convertible_fields_def api_eval lower_defs
      is_congress_key_def geo_get_def known_spellings_def arr_or_def locate_cdArray_def
      resolveDistricts_def api_rep_def)

text \<open>
  Claim C7: an unrecognized or missing state FIPS code makes the extractor skip that one
  object. The code does so for a missing code and for every code that is neither in the
  table nor the name of a member of \<^verbatim>\<open>Object.prototype\<close> (theorem \<open>state_of_object\<close>). It
  does not at the object \<^verbatim>\<open>{"STATE": "constructor"}\<close>: the code \<open>constructor\<close> is not in the
  table, the lookup finds the inherited constructor function, which is truthy, and the
  object is not skipped: it yields a key made of the function's text.
\<close>

theorem C7_inherited_name_not_skipped:
  "stateFips cd_constructor = Inr (Some ''constructor'') \<and>
   map_of FIPS_TO_STATE ''constructor'' = None \<and>
   cd_key big cd_constructor = Inr (Some ''function Object() { [native code] }-1'') \<and>
   resolveDistricts big [(''Congressional Districts'', Some [cd_constructor])] =
     Inr [''function Object() { [native code] }-1'']"
  by (simp add: cd_constructor_def api_eval lower_defs is_congress_key_def geo_get_def
      known_spellings_def arr_or_def locate_cdArray_def resolveDistricts_def)

end
